theory Spec2Isabelle
  imports Main "HOL-Library.AList"
begin

section \<open>Data model\<close>

text \<open>
  A cell of a pandas table as \<^verbatim>\<open>streamlint.py\<close> sees it: the missing-value marker
  (\<^verbatim>\<open>np.nan\<close>, what \<^verbatim>\<open>read_excel\<close> gives an empty cell), a text, or a number. Numbers are
  integers here; the program never computes with them, it only asks whether a cell
  is missing and, for the budget column, renders it with \<^verbatim>\<open>astype(str)\<close>.
\<close>

datatype cell = NaN | Str string | Num int

text \<open>
  A \<^verbatim>\<open>DataFrame\<close>: the length of its row index and its columns in order, each a name
  with its values. Only the length of the index matters to the program: every table
  it aligns carries the index \<^verbatim>\<open>0..n-1\<close> of \<^verbatim>\<open>read_excel\<close>, and \<^verbatim>\<open>concat\<close> is called with
  \<^verbatim>\<open>ignore_index=True\<close>.
\<close>

record frame =
  index_len :: nat
  columns :: "(string \<times> cell list) list"

definition column_names :: "frame \<Rightarrow> string list" where
  "column_names f = map fst (columns f)"

text \<open>
  \<^verbatim>\<open>name in df.columns\<close> together with \<^verbatim>\<open>df[name]\<close>: \<open>None\<close> when the table has no such
  column, otherwise the column's values.
\<close>

definition column :: "frame \<Rightarrow> string \<Rightarrow> cell list option" where
  "column f k = map_of (columns f) k"

text \<open>
  What \<^verbatim>\<open>read_excel\<close> returns: column names are unique (pandas renames duplicates) and
  every column has one value per row.
\<close>

definition cols_ok :: "frame \<Rightarrow> bool" where
  "cols_ok f \<longleftrightarrow> list_all (\<lambda>kv. length (snd kv) = index_len f) (columns f)"

definition wf_frame :: "frame \<Rightarrow> bool" where
  "wf_frame f \<longleftrightarrow> distinct (column_names f) \<and> cols_ok f"

text \<open>The rows of a table, each the list of its cells in column order.\<close>

definition row :: "frame \<Rightarrow> nat \<Rightarrow> cell list" where
  "row f i = map (\<lambda>kv. snd kv ! i) (columns f)"

definition rows :: "frame \<Rightarrow> cell list list" where
  "rows f = map (row f) [0..<index_len f]"

text \<open>
  The value of a key of the alias table: \<^verbatim>\<open>None\<close>, one source column name, or a list of
  candidate names.
\<close>

datatype alias_rule = NoMapping | Single string | Candidates "string list"

text \<open>A Python \<^verbatim>\<open>dict\<close> in insertion order; its keys are distinct.\<close>

type_synonym mapper = "(string \<times> alias_rule) list"

section \<open>Schema Registry\<close>

definition budget_field :: string where
  "budget_field = ''Demands with pledges, commitment, or funding (Yes/No)''"

definition MASTER_COLUMNS :: "string list" where
  "MASTER_COLUMNS =
    [''Sl No'', ''Title'', ''Type of document'', ''Publication/Adoption Date'', ''Country'',
     ''Goals/objectives/vision statements'', ''Problems/challenges identified'',
     ''Calls for action/intervention'', ''Demands with pledges, commitment, or funding (Yes/No)'',
     ''Indicators of urgency/priority'', ''Type of demand'', ''Description of the specific Innovation(s)'',
     ''Type of Innovation'', ''CGIAR Impact Area(s)'', ''SDG Contribution'',
     ''Stakeholder groups involved'', ''Stakeholder group needs/demand/effective demand'', ''URL'']"

definition thematic_focus :: string where
  "thematic_focus = ''Thematic Focus (Brief description of the main themes or sectors covered (e.g., agriculture, forestry, gender, employment).)''"

definition implementation_agency :: string where
  "implementation_agency = ''Implementation Agency (Ministry/departments/boards, etc..)''"

definition budget_allocation :: string where
  "budget_allocation = ''Budget Allocation (if any) Indicate if there is any budget attached and its size or source.''"

definition mapper_clim :: mapper where
  "mapper_clim =
    [(''Sl No'', Single ''Sl No''),
     (''Country'', Single ''Country''),
     (''Title'', Candidates [''Type of document (Policy; Program; Implementation plans; strategic plans, etc)'', ''Policy'']),
     (''Type of document'', Single ''Policy Type \<newline>(e.g., Policy, Strategy, Action Plan.)''),
     (''Publication/Adoption Date'', Candidates [''Publication/Adoption Date'', ''Year of adoption'']),
     (thematic_focus, Single thematic_focus),
     (''Goals/objectives/vision statements'',
        Single ''Objectives/Goals (Short summary of the stated aims or goals of the policy).''),
     (''Problems/challenges identified'',
        Single ''Remarks \<newline>(Additional notes, such as challenges, reforms in progress, or relevance to global frameworks (e.g., SDGs).)''),
     (''Calls for action/intervention'',
        Single ''Key Provisions or Measures\<newline>Summary of major policy actions or mechanisms introduced.''),
     (''Demands with pledges, commitment, or funding (Yes/No)'', Single budget_allocation),
     (''Description of the specific Innovation(s)'',
        Single ''Implementation Mechanism (Description of how the policy is implemented (e.g., through specific programs, agencies, funding mechanisms).)''),
     (''SDG Contribution'',
        Single ''Policy Linkages\<newline>Related policies or alignment with international frameworks (e.g., SDGs, UNFCCC).''),
     (''Stakeholder groups involved'',
        Single ''Implementation Agency \<newline>(Ministry/departments/boards, etc..)''),
     (''URL'', Candidates [''URL'', ''Link to Full Document'']),
     (implementation_agency, Single implementation_agency),
     (''Indicators of urgency/priority'', NoMapping),
     (''Type of demand'', NoMapping),
     (''Type of Innovation'', NoMapping),
     (''CGIAR Impact Area(s)'', NoMapping),
     (''Stakeholder group needs/demand/effective demand'', NoMapping)]"

section \<open>pandas operations used by the program\<close>

datatype error = ValueError

text \<open>\<^verbatim>\<open>pd.DataFrame(columns=names)\<close>: the named columns and no rows.\<close>

definition DataFrame :: "string list \<Rightarrow> frame" where
  "DataFrame names = \<lparr>index_len = 0, columns = map (\<lambda>k. (k, [])) names\<rparr>"

text \<open>
  Every \<^verbatim>\<open>frame[key] = value\<close> starts here: a table that has no rows yet and is given a
  non-empty list-like value takes that value's index, and its existing columns are
  filled with the missing marker over the new index.
\<close>

definition ensure_valid_index :: "frame \<Rightarrow> cell list \<Rightarrow> frame" where
  "ensure_valid_index f vs =
     (if index_len f = 0 \<and> vs \<noteq> []
      then \<lparr>index_len = length vs,
             columns = map (\<lambda>kv. (fst kv, replicate (length vs) NaN)) (columns f)\<rparr>
      else f)"

text \<open>An existing column is replaced where it stands; a new one is added at the end.\<close>

definition set_column :: "frame \<Rightarrow> string \<Rightarrow> cell list \<Rightarrow> frame" where
  "set_column f k vs = f\<lparr>columns := AList.update k vs (columns f)\<rparr>"

text \<open>\<^verbatim>\<open>frame[key] = scalar\<close>: one copy of the scalar per row the table has now.\<close>

definition setitem_scalar :: "frame \<Rightarrow> string \<Rightarrow> cell \<Rightarrow> frame" where
  "setitem_scalar f k v = set_column f k (replicate (index_len f) v)"

text \<open>
  \<^verbatim>\<open>frame[key] = series\<close>, the series indexed \<^verbatim>\<open>0..len-1\<close>: the series is aligned to the
  table's index, labels it lacks becoming missing markers. Nothing is raised.
\<close>

definition reindex :: "cell list \<Rightarrow> nat \<Rightarrow> cell list" where
  "reindex vs n = take n vs @ replicate (n - length vs) NaN"

definition setitem_series :: "frame \<Rightarrow> string \<Rightarrow> cell list \<Rightarrow> frame" where
  "setitem_series f k vs =
     (let f' = ensure_valid_index f vs in set_column f' k (reindex vs (index_len f')))"

text \<open>
  \<^verbatim>\<open>frame[key] = array\<close> (a numpy array or a \<^verbatim>\<open>range\<close>): pandas raises \<^verbatim>\<open>ValueError\<close> unless
  the array has one value per row.
\<close>

definition setitem_values :: "frame \<Rightarrow> string \<Rightarrow> cell list \<Rightarrow> error + frame" where
  "setitem_values f k vs =
     (let f' = ensure_valid_index f vs
      in if length vs \<noteq> index_len f' then Inl ValueError else Inr (set_column f' k vs))"

definition isna :: "cell \<Rightarrow> bool" where
  "isna c \<longleftrightarrow> c = NaN"

text \<open>
  \<^verbatim>\<open>dropna(how='all')\<close>: a row is kept when at least one of its cells is not missing; the
  kept rows stay in order.
\<close>

definition dropna_all :: "frame \<Rightarrow> frame" where
  "dropna_all f =
     (let keep = filter (\<lambda>i. \<not> list_all (\<lambda>kv. isna (snd kv ! i)) (columns f)) [0..<index_len f]
      in \<lparr>index_len = length keep,
          columns = map (\<lambda>kv. (fst kv, map (\<lambda>i. snd kv ! i) keep)) (columns f)\<rparr>)"

section \<open>Column Mapper: the mapping loop of process_file\<close>

text \<open>
  The inner loop over a list of candidate names: the first candidate that is a column
  of the source is copied and the loop is left; with none found the field is set to
  the scalar \<^verbatim>\<open>np.nan\<close>.
\<close>

fun scan_candidates :: "frame \<Rightarrow> frame \<Rightarrow> string \<Rightarrow> string list \<Rightarrow> frame" where
  "scan_candidates df sdf target [] = setitem_scalar sdf target NaN"
| "scan_candidates df sdf target (col_name # rest) =
     (case column df col_name of
        Some vs \<Rightarrow> setitem_series sdf target vs
      | None \<Rightarrow> scan_candidates df sdf target rest)"

text \<open>
  One pass of the loop over \<^verbatim>\<open>mapper.items()\<close>. In the \<^verbatim>\<open>elif\<close>, \<^verbatim>\<open>source_col and ...\<close> is
  false for \<^verbatim>\<open>None\<close> and for the empty string.
\<close>

fun map_step :: "frame \<Rightarrow> frame \<Rightarrow> string \<times> alias_rule \<Rightarrow> frame" where
  "map_step df sdf (target_col, Candidates source_col) =
     scan_candidates df sdf target_col source_col"
| "map_step df sdf (target_col, Single source_col) =
     (if source_col \<noteq> [] then
        (case column df source_col of
           Some vs \<Rightarrow> setitem_series sdf target_col vs
         | None \<Rightarrow> setitem_scalar sdf target_col NaN)
      else setitem_scalar sdf target_col NaN)"
| "map_step df sdf (target_col, NoMapping) = setitem_scalar sdf target_col NaN"

definition mapping_loop :: "frame \<Rightarrow> mapper \<Rightarrow> frame" where
  "mapping_loop df mapper = foldl (map_step df) (DataFrame MASTER_COLUMNS) mapper"

section \<open>Budget Normalizer\<close>

text \<open>
  \<^verbatim>\<open>.str.lower()\<close> is carried out by the string backend of the column: Python's
  \<^verbatim>\<open>str.lower\<close> for an object column, Arrow's lower-casing for Arrow-backed text. The
  two agree on ASCII text and differ outside it (on the dotted capital I, for one),
  and the source does not choose between them. The lower-casing is therefore a
  parameter \<open>str_lower\<close> of the normalizer and of every function that runs it.

  \<open>ascii_lower\<close> is what every backend does to ASCII text: the letters \<^verbatim>\<open>A-Z\<close> go to
  \<^verbatim>\<open>a-z\<close>. It stands for \<open>str_lower\<close> where a concrete ASCII input is evaluated.
\<close>

definition ascii_lower_char :: "char \<Rightarrow> char" where
  "ascii_lower_char c =
     (case map_of (zip ''ABCDEFGHIJKLMNOPQRSTUVWXYZ'' ''abcdefghijklmnopqrstuvwxyz'') c of
        Some l \<Rightarrow> l
      | None \<Rightarrow> c)"

definition ascii_lower :: "string \<Rightarrow> string" where
  "ascii_lower s = map ascii_lower_char s"

definition is_ascii :: "char \<Rightarrow> bool" where
  "is_ascii c \<longleftrightarrow> \<not> digit7 c"

text \<open>\<^verbatim>\<open>str(i)\<close> of an integer: its decimal digits, with a minus sign when negative.\<close>

definition digit_chars :: string where
  "digit_chars = ''0123456789''"

definition digit_char :: "nat \<Rightarrow> char" where
  "digit_char d = digit_chars ! d"

fun str_nat :: "nat \<Rightarrow> string" where
  "str_nat n = (if n < 10 then [digit_char n] else str_nat (n div 10) @ [digit_char (n mod 10)])"

declare str_nat.simps [simp del]

definition py_str :: "int \<Rightarrow> string" where
  "py_str i = (if i < 0 then CHR ''-'' # str_nat (nat (- i)) else str_nat (nat i))"

text \<open>
  \<^verbatim>\<open>fillna("")\<close> and \<^verbatim>\<open>astype(str)\<close>, cell by cell. In a float column pandas renders a
  number with a decimal point; either way the text is not empty and is none of the
  phrases below.
\<close>

definition fillna_empty :: "cell \<Rightarrow> cell" where
  "fillna_empty c = (if isna c then Str [] else c)"

fun astype_str :: "cell \<Rightarrow> string" where
  "astype_str (Str s) = s"
| "astype_str (Num i) = py_str i"
| "astype_str NaN = ''nan''"

definition no_strings :: "string list" where
  "no_strings =
     [''not specified'', ''no exclusive'', ''not publicly specified'',
      ''not direct'', ''no dedicated budget'']"

text \<open>
  One row of the vectorised \<^verbatim>\<open>np.where(isna | (budget_data == "") | isin(no_strings),
  "No", "Yes")\<close>.
\<close>

definition yes_no :: "(string \<Rightarrow> string) \<Rightarrow> cell \<Rightarrow> cell" where
  "yes_no str_lower original =
     (let budget_data = str_lower (astype_str (fillna_empty original))
      in if isna original \<or> budget_data = [] \<or> budget_data \<in> set no_strings
         then Str ''No'' else Str ''Yes'')"

text \<open>\<^verbatim>\<open>next((col for col in names if col in df.columns), None)\<close>\<close>

fun next_present :: "frame \<Rightarrow> string list \<Rightarrow> string option" where
  "next_present df [] = None"
| "next_present df (col # rest) =
     (if col \<in> set (column_names df) then Some col else next_present df rest)"

text \<open>\<^verbatim>\<open>mapper.get(key)\<close>: \<^verbatim>\<open>None\<close> for a key the dict does not have.\<close>

definition mapper_get :: "mapper \<Rightarrow> string \<Rightarrow> alias_rule" where
  "mapper_get mapper k = (case map_of mapper k of Some r \<Rightarrow> r | None \<Rightarrow> NoMapping)"

text \<open>
  Lines 81 to 101: the name of the backing column is looked up again; when there is
  one and the source has it, the budget field is overwritten with the Yes/No array.
\<close>

definition normalize_budget :: "(string \<Rightarrow> string) \<Rightarrow> frame \<Rightarrow> mapper \<Rightarrow> frame \<Rightarrow> error + frame" where
  "normalize_budget str_lower df mapper sdf =
     (let budget_col_name =
            (case mapper_get mapper budget_field of
               Candidates names \<Rightarrow> next_present df names
             | Single s \<Rightarrow> Some s
             | NoMapping \<Rightarrow> None)
      in case budget_col_name of
           None \<Rightarrow> Inr sdf
         | Some c \<Rightarrow>
             if c \<noteq> [] then
               (case column df c of
                  Some original_budget \<Rightarrow>
                    setitem_values sdf budget_field (map (yes_no str_lower) original_budget)
                | None \<Rightarrow> Inr sdf)
             else Inr sdf)"

section \<open>process_file\<close>

text \<open>
  An uploaded file: its name and what \<^verbatim>\<open>pd.read_excel\<close> does with it, which is to raise
  (\<open>Inl\<close>, with the text of the exception) or to return the source table.
\<close>

record uploaded_file =
  file_name :: string
  read_excel :: "string + frame"

text \<open>The calls to streamlit, in the order \<^verbatim>\<open>main\<close> and \<^verbatim>\<open>process_file\<close> make them.\<close>

datatype event =
    Title
  | Intro
  | Processing string
  | Error string
  | Success nat string
  | Warning string
  | Subheader
  | Preview frame
  | TotalRows nat
  | Download frame
  | NoDataInfo
  | UploadPrompt

text \<open>The table as it stands before \<^verbatim>\<open>dropna\<close>: mapped, then normalised.\<close>

definition before_dropna :: "(string \<Rightarrow> string) \<Rightarrow> frame \<Rightarrow> mapper \<Rightarrow> error + frame" where
  "before_dropna str_lower df mapper = normalize_budget str_lower df mapper (mapping_loop df mapper)"

text \<open>
  The result is the events reported and the value returned, \<open>None\<close> for Python's
  \<^verbatim>\<open>None\<close>; \<open>Inl\<close> is an exception that leaves the function.
\<close>

definition process_file :: "(string \<Rightarrow> string) \<Rightarrow> uploaded_file \<Rightarrow> mapper \<Rightarrow> error + (event list \<times> frame option)" where
  "process_file str_lower file_obj mapper =
     (case read_excel file_obj of
        Inl e \<Rightarrow> Inr ([Error e], None)
      | Inr df \<Rightarrow>
          (case before_dropna str_lower df mapper of
             Inl err \<Rightarrow> Inl err
           | Inr standardized_df \<Rightarrow> Inr ([], Some (dropna_all standardized_df))))"

section \<open>The body of process_file over the objects it can reach\<close>









section \<open>Dataset Assembler and main\<close>

text \<open>\<^verbatim>\<open>DataFrame.empty\<close>: some axis has length 0.\<close>

definition empty_frame :: "frame \<Rightarrow> bool" where
  "empty_frame f \<longleftrightarrow> index_len f = 0 \<or> columns f = []"

text \<open>The loop over the uploaded files, with the log and \<^verbatim>\<open>all_dfs\<close> as they grow.\<close>

fun process_files ::
  "(string \<Rightarrow> string) \<Rightarrow> uploaded_file list \<Rightarrow> event list \<Rightarrow> frame list \<Rightarrow> error + (event list \<times> frame list)" where
  "process_files str_lower [] log all_dfs = Inr (log, all_dfs)"
| "process_files str_lower (f # fs) log all_dfs =
     (case process_file str_lower f mapper_clim of
        Inl err \<Rightarrow> Inl err
      | Inr (reported, processed_df) \<Rightarrow>
          (case processed_df of
             Some p \<Rightarrow>
               if \<not> empty_frame p
               then process_files str_lower fs
                      (log @ Processing (file_name f) # reported @ [Success (index_len p) (file_name f)])
                      (all_dfs @ [p])
               else process_files str_lower fs
                      (log @ Processing (file_name f) # reported @ [Warning (file_name f)]) all_dfs
           | None \<Rightarrow>
               process_files str_lower fs
                 (log @ Processing (file_name f) # reported @ [Warning (file_name f)]) all_dfs))"

text \<open>The distinct elements of a list in the order of their first occurrence.\<close>

definition unique :: "'a list \<Rightarrow> 'a list" where
  "unique xs = rev (remdups (rev xs))"

text \<open>
  \<^verbatim>\<open>pd.concat(frames, ignore_index=True)\<close>: the union of the columns in order of first
  appearance, each the tables' values one after the other, a table without the column
  giving missing markers for its rows.
\<close>

definition concat_frames :: "frame list \<Rightarrow> frame" where
  "concat_frames fs =
     \<lparr>index_len = sum_list (map index_len fs),
      columns =
        map (\<lambda>k. (k, concat (map (\<lambda>f. case column f k of
                                          Some vs \<Rightarrow> vs
                                        | None \<Rightarrow> replicate (index_len f) NaN) fs)))
            (unique (concat (map column_names fs)))\<rparr>"

text \<open>Lines 138 to 141: concatenate, then \<^verbatim>\<open>master_dataset["Sl No"] = range(1, len + 1)\<close>.\<close>

definition assemble :: "frame list \<Rightarrow> error + frame" where
  "assemble all_dfs =
     (let master_dataset = concat_frames all_dfs
      in setitem_values master_dataset ''Sl No''
           (map (\<lambda>i. Num (int i)) [1..<index_len master_dataset + 1]))"

definition head :: "nat \<Rightarrow> frame \<Rightarrow> frame" where
  "head n f =
     \<lparr>index_len = min n (index_len f), columns = map (\<lambda>kv. (fst kv, take n (snd kv))) (columns f)\<rparr>"

definition main :: "(string \<Rightarrow> string) \<Rightarrow> uploaded_file list \<Rightarrow> error + event list" where
  "main str_lower uploaded_files =
     (if uploaded_files \<noteq> [] then
        (case process_files str_lower uploaded_files [Title, Intro] [] of
           Inl err \<Rightarrow> Inl err
         | Inr (log, all_dfs) \<Rightarrow>
             if all_dfs \<noteq> [] then
               (case assemble all_dfs of
                  Inl err \<Rightarrow> Inl err
                | Inr master_dataset \<Rightarrow>
                    Inr (log @ [Subheader, Preview (head 50 master_dataset),
                                TotalRows (index_len master_dataset), Download master_dataset]))
             else Inr (log @ [NoDataInfo]))
      else Inr [Title, Intro, UploadPrompt])"

section \<open>Notions used to state the properties\<close>

text \<open>
  The values an alias rule resolves to in a source table, if any: the column of the
  single name, or of the first candidate the table has.
\<close>

fun first_values :: "frame \<Rightarrow> string list \<Rightarrow> cell list option" where
  "first_values df [] = None"
| "first_values df (c # cs) =
     (case column df c of Some vs \<Rightarrow> Some vs | None \<Rightarrow> first_values df cs)"

fun resolve :: "frame \<Rightarrow> alias_rule \<Rightarrow> cell list option" where
  "resolve df NoMapping = None"
| "resolve df (Single s) = (if s \<noteq> [] then column df s else None)"
| "resolve df (Candidates cs) = first_values df cs"

text \<open>
  What is known of the lower-casing of any string backend: on ASCII text it is
  \<open>ascii_lower\<close>, and it never turns a text into the empty text.
\<close>

definition backend_lower :: "(string \<Rightarrow> string) \<Rightarrow> bool" where
  "backend_lower str_lower \<longleftrightarrow>
     (\<forall>s. list_all is_ascii s \<longrightarrow> str_lower s = ascii_lower s) \<and> (\<forall>s. str_lower s = [] \<longrightarrow> s = [])"

text \<open>An alias rule names a column that the source table has.\<close>

fun rule_present :: "frame \<Rightarrow> alias_rule \<Rightarrow> bool" where
  "rule_present df NoMapping = False"
| "rule_present df (Single s) = (s \<noteq> [] \<and> s \<in> set (column_names df))"
| "rule_present df (Candidates cs) = (\<exists>c\<in>set cs. c \<in> set (column_names df))"

text \<open>
  What the loop of \<^verbatim>\<open>main\<close> does with one file: the table it appends to \<^verbatim>\<open>all_dfs\<close>, if
  any, and the events it reports. A readable file is in order when its table is
  well formed.
\<close>

definition usable_table :: "(string \<Rightarrow> string) \<Rightarrow> uploaded_file \<Rightarrow> frame option" where
  "usable_table str_lower f =
     (case process_file str_lower f mapper_clim of
        Inl err \<Rightarrow> None
      | Inr (reported, processed_df) \<Rightarrow>
          (case processed_df of
             Some p \<Rightarrow> if \<not> empty_frame p then Some p else None
           | None \<Rightarrow> None))"

definition file_events :: "(string \<Rightarrow> string) \<Rightarrow> uploaded_file \<Rightarrow> event list" where
  "file_events str_lower f =
     Processing (file_name f)
       # (case process_file str_lower f mapper_clim of Inl err \<Rightarrow> [] | Inr (reported, processed_df) \<Rightarrow> reported)
       @ [case usable_table str_lower f of
            Some p \<Rightarrow> Success (index_len p) (file_name f)
          | None \<Rightarrow> Warning (file_name f)]"

fun processing_name :: "event \<Rightarrow> string option" where
  "processing_name (Processing n) = Some n"
| "processing_name _ = None"

definition processed_names :: "event list \<Rightarrow> string list" where
  "processed_names evs = List.map_filter processing_name evs"

definition readable_ok :: "uploaded_file \<Rightarrow> bool" where
  "readable_ok f = (case read_excel f of Inl cause \<Rightarrow> True | Inr df \<Rightarrow> wf_frame df)"

section \<open>The Budget Normalizer as the specification words it\<close>




section \<open>Example tables\<close>

text \<open>
  A source with a budget column whose last row is blank elsewhere, a source without
  one whose last row is blank, a source none of whose columns is an alias, and a
  source with a blank row and a row that has a value in a pass-through column only.
\<close>

definition example_table :: frame where
  "example_table =
     \<lparr>index_len = 3,
      columns =
        [(''Policy'', [Str ''Water Act'', Str ''Seed Plan'', NaN]),
         (''Country'', [Str ''Kenya'', Str ''India'', NaN]),
         (budget_allocation, [Str ''Not Specified'', Str ''$2M allocated'', NaN])]\<rparr>"

definition example_file :: uploaded_file where
  "example_file = \<lparr>file_name = ''kenya.xlsx'', read_excel = Inr example_table\<rparr>"

definition example_no_budget :: frame where
  "example_no_budget =
     \<lparr>index_len = 2,
      columns = [(''Policy'', [Str ''Land Policy'', NaN]), (''Year of adoption'', [Num 2019, NaN])]\<rparr>"

definition example_no_budget_file :: uploaded_file where
  "example_no_budget_file = \<lparr>file_name = ''land.xlsx'', read_excel = Inr example_no_budget\<rparr>"

definition unmatched_table :: frame where
  "unmatched_table = \<lparr>index_len = 1, columns = [(''Foo'', [Str ''x''])]\<rparr>"

definition pass_through_table :: frame where
  "pass_through_table =
     \<lparr>index_len = 2,
      columns = [(''Country'', [NaN, NaN]), (thematic_focus, [NaN, Str ''x''])]\<rparr>"

definition empty_workbook :: uploaded_file where
  "empty_workbook = \<lparr>file_name = ''empty.xlsx'', read_excel = Inr \<lparr>index_len = 0, columns = []\<rparr>\<rparr>"

definition table_a :: frame where
  "table_a =
     \<lparr>index_len = 3,
      columns = [(''Sl No'', [Num 7, Num 7, NaN]), (''Title'', [Str ''a1'', Str ''a2'', Str ''a3''])]\<rparr>"

definition table_b :: frame where
  "table_b =
     \<lparr>index_len = 2,
      columns = [(''Sl No'', [Num 1, Str ''x'']), (''Title'', [Str ''b1'', Str ''b2''])]\<rparr>"

definition broken_file :: uploaded_file where
  "broken_file = \<lparr>file_name = ''broken.xlsx'', read_excel = Inl ''File is not a zip file''\<rparr>"

section \<open>Facts about the table operations\<close>

lemma scan_candidates_first:
  "scan_candidates df sdf k cs =
     (case first_values df cs of Some vs \<Rightarrow> setitem_series sdf k vs | None \<Rightarrow> setitem_scalar sdf k NaN)"
  by (induction cs) (auto split: option.splits)

lemma map_step_resolve:
  "map_step df sdf (k, r) =
     (case resolve df r of Some vs \<Rightarrow> setitem_series sdf k vs | None \<Rightarrow> setitem_scalar sdf k NaN)"
  by (cases r) (simp_all add: scan_candidates_first)

lemma wf_column_length: "wf_frame df \<Longrightarrow> column df c = Some vs \<Longrightarrow> length vs = index_len df"
proof -
  assume wf: "wf_frame df" and c: "column df c = Some vs"
  from c have "(c, vs) \<in> set (columns df)" unfolding column_def by (rule map_of_SomeD)
  with wf have "length (snd (c, vs)) = index_len df"
    unfolding wf_frame_def cols_ok_def list_all_iff by blast
  then show ?thesis by simp
qed

lemma first_values_length:
  "wf_frame df \<Longrightarrow> first_values df cs = Some vs \<Longrightarrow> length vs = index_len df"
  by (induction cs) (auto split: option.splits dest: wf_column_length)

lemma resolve_length: "wf_frame df \<Longrightarrow> resolve df r = Some vs \<Longrightarrow> length vs = index_len df"
  by (cases r) (auto split: if_splits dest: wf_column_length first_values_length)

lemma column_set_column: "column (set_column f k vs) = (column f)(k \<mapsto> vs)"
  by (simp add: column_def set_column_def update_conv' fun_eq_iff)

lemma index_len_set_column: "index_len (set_column f k vs) = index_len f"
  by (simp add: set_column_def)

lemma names_set_column:
  "column_names (set_column f k vs) =
     (if k \<in> set (column_names f) then column_names f else column_names f @ [k])"
  by (simp add: set_column_def column_names_def update_keys)

lemma names_ensure: "column_names (ensure_valid_index f vs) = column_names f"
  by (simp add: ensure_valid_index_def column_names_def comp_def)

lemma map_of_const:
  "map_of (map (\<lambda>kv. (fst kv, g)) xs) k = map_option (\<lambda>_. g) (map_of xs k)"
  by (induction xs) auto

lemma column_ensure:
  "column (ensure_valid_index f vs) k =
     (if index_len f = 0 \<and> vs \<noteq> [] then map_option (\<lambda>_. replicate (length vs) NaN) (column f k)
      else column f k)"
  by (simp add: ensure_valid_index_def column_def map_of_const)

lemma index_len_ensure:
  "index_len (ensure_valid_index f vs) = (if index_len f = 0 \<and> vs \<noteq> [] then length vs else index_len f)"
  by (simp add: ensure_valid_index_def)

lemma reindex_same: "length vs = n \<Longrightarrow> reindex vs n = vs"
  by (simp add: reindex_def)

lemma column_DataFrame:
  "column (DataFrame names) k = (if k \<in> set names then Some [] else None)"
  by (induction names) (auto simp: DataFrame_def column_def)

lemma map_of_snoc_fresh:
  "k' \<notin> fst ` set ms \<Longrightarrow> map_of (ms @ [(k', r')]) k = (if k = k' then Some r' else map_of ms k)"
  by (induction ms) auto

lemma loop_columns:
  assumes wf: "wf_frame df" and d: "distinct (map fst ms)"
  shows "index_len (foldl (map_step df) (DataFrame names) ms) =
           (if index_len df \<noteq> 0 \<and> (\<exists>kr\<in>set ms. resolve df (snd kr) \<noteq> None) then index_len df else 0)
         \<and> (\<forall>k. column (foldl (map_step df) (DataFrame names) ms) k =
               (case map_of ms k of
                  Some r \<Rightarrow> Some (case resolve df r of Some vs \<Rightarrow> vs
                     | None \<Rightarrow> replicate (index_len (foldl (map_step df) (DataFrame names) ms)) NaN)
                | None \<Rightarrow> if k \<in> set names
                    then Some (replicate (index_len (foldl (map_step df) (DataFrame names) ms)) NaN) else None))"
  using d
proof (induction ms rule: rev_induct)
  case Nil
  show ?case by (simp add: column_DataFrame) (simp add: DataFrame_def)
next
  case (snoc x ms)
  obtain k' r' where x: "x = (k', r')" by (cases x)
  define s where "s = foldl (map_step df) (DataFrame names) ms"
  define m where "m = index_len s"
  define n where "n = index_len df"
  define any where "any \<longleftrightarrow> (\<exists>kr\<in>set ms. resolve df (snd kr) \<noteq> None)"
  from snoc.prems x have fresh: "k' \<notin> fst ` set ms" and dms: "distinct (map fst ms)" by auto
  note IH = snoc.IH[OF dms, folded s_def, folded m_def n_def any_def]
  from IH have IHm: "m = (if n \<noteq> 0 \<and> any then n else 0)"
    by blast
  from IH have IHc: "column s k =
               (case map_of ms k of
                  Some r \<Rightarrow> Some (case resolve df r of Some vs \<Rightarrow> vs | None \<Rightarrow> replicate m NaN)
                | None \<Rightarrow> if k \<in> set names then Some (replicate m NaN) else None)" for k
    by blast
  have mo: "map_of (ms @ [x]) k = (if k = k' then Some r' else map_of ms k)" for k
    unfolding x by (rule map_of_snoc_fresh[OF fresh])
  have ex: "(\<exists>kr\<in>set (ms @ [x]). resolve df (snd kr) \<noteq> None) \<longleftrightarrow> any \<or> resolve df r' \<noteq> None"
    unfolding any_def x by auto
  have step: "foldl (map_step df) (DataFrame names) (ms @ [x]) =
     (case resolve df r' of Some vs \<Rightarrow> setitem_series s k' vs | None \<Rightarrow> setitem_scalar s k' NaN)"
    unfolding s_def by (simp add: x map_step_resolve)
  show ?case
  proof (cases "resolve df r'")
    case None
    have s': "foldl (map_step df) (DataFrame names) (ms @ [x]) = setitem_scalar s k' NaN"
      unfolding step None by simp
    have il: "index_len (setitem_scalar s k' NaN) = m"
      by (simp add: setitem_scalar_def index_len_set_column m_def)
    have col: "column (setitem_scalar s k' NaN) k = (if k = k' then Some (replicate m NaN) else column s k)" for k
      by (simp add: setitem_scalar_def column_set_column m_def)
    show ?thesis unfolding s' ex mo il col n_def[symmetric]
      using IHm by (simp add: None IHc)
  next
    case (Some vs)
    have s': "foldl (map_step df) (DataFrame names) (ms @ [x]) = setitem_series s k' vs"
      unfolding step Some by simp
    from Some have len: "length vs = n" using resolve_length[OF wf] n_def by blast
    show ?thesis
    proof (cases "m = 0 \<and> vs \<noteq> []")
      case True
      with len IHm have nany: "\<not> any" and n0: "n \<noteq> 0"
        by (auto split: if_splits)
      have il: "index_len (setitem_series s k' vs) = n"
        using True len by (simp add: setitem_series_def Let_def index_len_set_column index_len_ensure m_def)
      have col: "column (setitem_series s k' vs) k =
                  (if k = k' then Some vs else map_option (\<lambda>_. replicate n NaN) (column s k))" for k
        using True len
        by (simp add: setitem_series_def Let_def column_set_column column_ensure index_len_ensure reindex_same m_def)
      have res: "resolve df r = None" if "map_of ms k = Some r" for k r
      proof -
        from that have "(k, r) \<in> set ms" by (rule map_of_SomeD)
        with nany show ?thesis unfolding any_def by auto
      qed
      have old: "map_option (\<lambda>_. replicate n NaN) (column s k) =
            (case map_of ms k of Some r \<Rightarrow> Some (case resolve df r of Some vs \<Rightarrow> vs | None \<Rightarrow> replicate n NaN)
             | None \<Rightarrow> if k \<in> set names then Some (replicate n NaN) else None)" for k
        unfolding IHc by (auto split: option.splits simp: res)
      show ?thesis unfolding s' ex mo il col n_def[symmetric] old
        using n0 by (simp add: Some)
    next
      case False
      have mn: "m = n"
        using False len IHm by (auto split: if_splits)
      have il: "index_len (setitem_series s k' vs) = n"
        using False mn by (auto simp: setitem_series_def Let_def index_len_set_column index_len_ensure m_def)
      have col: "column (setitem_series s k' vs) k = (if k = k' then Some vs else column s k)" for k
        using False len mn
        by (auto simp: setitem_series_def Let_def column_set_column column_ensure index_len_ensure reindex_same m_def)
      have n0: "n = 0 \<Longrightarrow> vs = []" using len by simp
      show ?thesis unfolding s' ex mo il col n_def[symmetric] IHc mn
        using n0 by (auto simp: Some)
    qed
  qed
qed

subsection \<open>Column names\<close>

lemma names_setitem_scalar:
  "column_names (setitem_scalar f k v) =
     (if k \<in> set (column_names f) then column_names f else column_names f @ [k])"
  by (simp add: setitem_scalar_def names_set_column)

lemma names_setitem_series:
  "column_names (setitem_series f k vs) =
     (if k \<in> set (column_names f) then column_names f else column_names f @ [k])"
  by (simp add: setitem_series_def Let_def names_set_column names_ensure)

lemma names_map_step:
  "column_names (map_step df sdf kr) =
     (if fst kr \<in> set (column_names sdf) then column_names sdf else column_names sdf @ [fst kr])"
  by (cases kr) (simp add: map_step_resolve names_setitem_scalar names_setitem_series split: option.splits)

lemma filter_fresh:
  "x \<notin> set ks \<Longrightarrow> filter (\<lambda>k. k \<noteq> x \<and> k \<notin> A) ks = filter (\<lambda>k. k \<notin> A) ks"
  by (induction ks) auto

lemma names_foldl:
  "distinct (map fst ms) \<Longrightarrow>
   column_names (foldl (map_step df) sdf ms) =
     column_names sdf @ filter (\<lambda>k. k \<notin> set (column_names sdf)) (map fst ms)"
proof (induction ms arbitrary: sdf)
  case Nil
  then show ?case by simp
next
  case (Cons kr ms)
  from Cons.prems have d: "distinct (map fst ms)" and fresh: "fst kr \<notin> set (map fst ms)" by auto
  have flt: "filter (\<lambda>k. k \<noteq> fst kr \<and> k \<notin> A) (map fst ms) = filter (\<lambda>k. k \<notin> A) (map fst ms)" for A
    using fresh by (rule filter_fresh)
  show ?case
    by (simp add: Cons.IH[OF d] names_map_step flt conj_commute)
qed

lemma names_DataFrame: "column_names (DataFrame names) = names"
  by (simp add: DataFrame_def column_names_def comp_def)

lemma names_mapping_loop:
  "distinct (map fst mapper) \<Longrightarrow>
   column_names (mapping_loop df mapper) =
     MASTER_COLUMNS @ filter (\<lambda>k. k \<notin> set MASTER_COLUMNS) (map fst mapper)"
  by (simp add: mapping_loop_def names_foldl names_DataFrame)

subsection \<open>Column lengths\<close>

lemma set_update_subset: "set (AList.update k v al) \<subseteq> insert (k, v) (set al)"
  by (induction al) auto

lemma cols_ok_set_column:
  "cols_ok f \<Longrightarrow> length vs = index_len f \<Longrightarrow> cols_ok (set_column f k vs)"
  using set_update_subset[of k vs "columns f"]
  unfolding cols_ok_def set_column_def list_all_iff by auto

lemma cols_ok_ensure: "cols_ok f \<Longrightarrow> cols_ok (ensure_valid_index f vs)"
  unfolding cols_ok_def ensure_valid_index_def list_all_iff by auto

lemma length_reindex: "length (reindex vs n) = n"
  by (simp add: reindex_def)

lemma cols_ok_setitem_scalar: "cols_ok f \<Longrightarrow> cols_ok (setitem_scalar f k v)"
  by (simp add: setitem_scalar_def cols_ok_set_column)

lemma cols_ok_setitem_series: "cols_ok f \<Longrightarrow> cols_ok (setitem_series f k vs)"
  by (simp add: setitem_series_def Let_def cols_ok_set_column cols_ok_ensure length_reindex)

lemma cols_ok_map_step: "cols_ok sdf \<Longrightarrow> cols_ok (map_step df sdf kr)"
  by (cases kr) (simp add: map_step_resolve cols_ok_setitem_scalar cols_ok_setitem_series split: option.splits)

lemma cols_ok_foldl: "cols_ok sdf \<Longrightarrow> cols_ok (foldl (map_step df) sdf ms)"
  by (induction ms arbitrary: sdf) (simp_all add: cols_ok_map_step)

lemma cols_ok_mapping_loop: "cols_ok (mapping_loop df mapper)"
  unfolding mapping_loop_def by (rule cols_ok_foldl) (simp add: cols_ok_def DataFrame_def list_all_iff)

subsection \<open>Dropping the all-missing rows\<close>

lemma names_dropna: "column_names (dropna_all f) = column_names f"
  by (simp add: dropna_all_def column_names_def Let_def comp_def)

lemma rows_dropna: "rows (dropna_all f) = filter (\<lambda>r. \<not> list_all isna r) (rows f)"
proof -
  define keep where "keep = filter (\<lambda>i. \<not> list_all (\<lambda>kv. isna (snd kv ! i)) (columns f)) [0..<index_len f]"
  have d: "dropna_all f = \<lparr>index_len = length keep,
          columns = map (\<lambda>kv. (fst kv, map (\<lambda>i. snd kv ! i) keep)) (columns f)\<rparr>"
    by (simp add: dropna_all_def keep_def Let_def)
  have r: "row (dropna_all f) j = row f (keep ! j)" if "j < length keep" for j
    using that by (simp add: d row_def comp_def)
  have "rows (dropna_all f) = map (\<lambda>j. row f (keep ! j)) [0..<length keep]"
    unfolding rows_def by (rule map_cong) (simp_all add: d r[unfolded d])
  also have "\<dots> = map (row f) (map (\<lambda>j. keep ! j) [0..<length keep])" by (simp add: comp_def)
  also have "\<dots> = map (row f) keep" by (simp add: map_nth)
  also have "\<dots> = filter (\<lambda>r. \<not> list_all isna r) (rows f)"
    by (simp add: keep_def rows_def filter_map comp_def row_def list_all_iff)
  finally show ?thesis .
qed

lemma dropna_id:
  assumes ok: "cols_ok f" and c: "column f k = Some vs" and nn: "NaN \<notin> set vs"
  shows "dropna_all f = f"
proof -
  from c have mem: "(k, vs) \<in> set (columns f)" unfolding column_def by (rule map_of_SomeD)
  with ok have len: "length vs = index_len f" unfolding cols_ok_def list_all_iff by auto
  have "\<not> list_all (\<lambda>kv. isna (snd kv ! i)) (columns f)" if "i < index_len f" for i
  proof -
    from that len nn have "vs ! i \<noteq> NaN" by (metis nth_mem)
    with mem show ?thesis unfolding list_all_iff isna_def by force
  qed
  then have keep: "filter (\<lambda>i. \<not> list_all (\<lambda>kv. isna (snd kv ! i)) (columns f)) [0..<index_len f] = [0..<index_len f]"
    by (intro filter_True) auto
  have "map (\<lambda>kv. (fst kv, map (\<lambda>i. snd kv ! i) [0..<index_len f])) (columns f) = columns f"
  proof (rule map_idI)
    fix kv assume "kv \<in> set (columns f)"
    with ok have "length (snd kv) = index_len f" unfolding cols_ok_def list_all_iff by auto
    then have "map (\<lambda>i. snd kv ! i) [0..<index_len f] = snd kv" by (metis map_nth)
    then show "(fst kv, map (\<lambda>i. snd kv ! i) [0..<index_len f]) = kv" by simp
  qed
  then show ?thesis by (simp add: dropna_all_def keep)
qed

lemma map_of_map_snd:
  "map_of (map (\<lambda>kv. (fst kv, g (snd kv))) xs) k = map_option g (map_of xs k)"
  by (induction xs) auto

lemma column_dropna_all_NaN:
  assumes c: "column f k = Some (replicate (index_len f) NaN)"
  shows "column (dropna_all f) k = Some (replicate (index_len (dropna_all f)) NaN)"
proof -
  define keep where "keep = filter (\<lambda>i. \<not> list_all (\<lambda>kv. isna (snd kv ! i)) (columns f)) [0..<index_len f]"
  have d: "dropna_all f = \<lparr>index_len = length keep,
          columns = map (\<lambda>kv. (fst kv, map (\<lambda>i. snd kv ! i) keep)) (columns f)\<rparr>"
    by (simp add: dropna_all_def keep_def Let_def)
  have "\<forall>i\<in>set keep. i < index_len f" by (auto simp: keep_def)
  then have "map (\<lambda>i. replicate (index_len f) NaN ! i) keep = replicate (length keep) NaN"
    by (simp add: map_replicate_const[symmetric] del: map_replicate_const cong: map_cong)
  moreover have "column (dropna_all f) k = map_option (\<lambda>vs. map (\<lambda>i. vs ! i) keep) (column f k)"
    unfolding d column_def
    using map_of_map_snd[of "\<lambda>vs. map (\<lambda>i. vs ! i) keep" "columns f" k] by simp
  ultimately show ?thesis using c by (simp add: d)
qed

subsection \<open>The Yes/No classification\<close>

lemma digit_char_in: "d < 10 \<Longrightarrow> digit_char d \<in> set digit_chars"
proof -
  assume "d < 10"
  then have d: "d \<in> set [0..<10]" by simp
  have "list_all (\<lambda>d. digit_char d \<in> set digit_chars) [0..<10]" by code_simp
  then have "\<forall>d\<in>set [0..<10]. digit_char d \<in> set digit_chars" by (simp only: list_all_iff)
  then show ?thesis using d by (rule bspec)
qed

lemma str_nat_chars: "set (str_nat n) \<subseteq> set digit_chars"
proof (induction n rule: str_nat.induct)
  case (1 n)
  show ?case
  proof (cases "n < 10")
    case True
    then show ?thesis using digit_char_in[of n] by (subst str_nat.simps) simp
  next
    case False
    have "n mod 10 < 10" by simp
    then have "digit_char (n mod 10) \<in> set digit_chars" by (rule digit_char_in)
    with False 1 show ?thesis by (subst str_nat.simps) simp
  qed
qed

lemma str_nat_nonempty: "str_nat n \<noteq> []"
  by (subst str_nat.simps) simp

lemma py_str_chars: "set (py_str i) \<subseteq> set (CHR ''-'' # digit_chars)"
  using str_nat_chars[of "nat i"] str_nat_chars[of "nat (- i)"] unfolding py_str_def by auto

lemma py_str_nonempty: "py_str i \<noteq> []"
  by (simp add: py_str_def str_nat_nonempty)

lemma ascii_lower_py_str: "ascii_lower (py_str i) = py_str i"
  unfolding ascii_lower_def
proof (rule map_idI)
  fix c assume "c \<in> set (py_str i)"
  with py_str_chars[of i] have c: "c \<in> set (CHR ''-'' # digit_chars)" by blast
  have "list_all (\<lambda>c. ascii_lower_char c = c) (CHR ''-'' # digit_chars)" by code_simp
  then have "\<forall>c\<in>set (CHR ''-'' # digit_chars). ascii_lower_char c = c" by (simp only: list_all_iff)
  then show "ascii_lower_char c = c" using c by (rule bspec)
qed

lemma py_str_not_phrase: "py_str i \<notin> set no_strings"
proof
  assume a: "py_str i \<in> set no_strings"
  have "list_all (\<lambda>p. CHR ''n'' \<in> set p) no_strings" by code_simp
  then have "\<forall>p\<in>set no_strings. CHR ''n'' \<in> set p" by (simp only: list_all_iff)
  then have "CHR ''n'' \<in> set (py_str i)" using a by (rule bspec)
  with py_str_chars[of i] have "CHR ''n'' \<in> set (CHR ''-'' # digit_chars)" by blast
  moreover have "CHR ''n'' \<notin> set (CHR ''-'' # digit_chars)" by code_simp
  ultimately show False by contradiction
qed

lemma py_str_ascii: "list_all is_ascii (py_str i)"
proof -
  have "list_all is_ascii (CHR ''-'' # digit_chars)" by code_simp
  then have "\<forall>c\<in>set (CHR ''-'' # digit_chars). is_ascii c" by (simp only: list_all_iff)
  with py_str_chars[of i] show ?thesis unfolding list_all_iff by blast
qed

lemma backend_lower_ascii: "backend_lower ascii_lower"
  by (simp add: backend_lower_def ascii_lower_def)

lemma backend_lower_on_ascii:
  "backend_lower str_lower \<Longrightarrow> list_all is_ascii s \<Longrightarrow> str_lower s = ascii_lower s"
  unfolding backend_lower_def by blast

lemma backend_lower_empty: "backend_lower str_lower \<Longrightarrow> str_lower s = [] \<longleftrightarrow> s = []"
proof -
  assume b: "backend_lower str_lower"
  have "list_all is_ascii []" by simp
  with b have "str_lower [] = ascii_lower []" by (rule backend_lower_on_ascii)
  then have "str_lower [] = []" by (simp add: ascii_lower_def)
  moreover from b have "str_lower s = [] \<Longrightarrow> s = []" unfolding backend_lower_def by blast
  ultimately show ?thesis by auto
qed

lemma yes_no_Num: "backend_lower str_lower \<Longrightarrow> yes_no str_lower (Num i) = Str ''Yes''"
proof -
  assume b: "backend_lower str_lower"
  have "str_lower (py_str i) = ascii_lower (py_str i)"
    using b py_str_ascii by (rule backend_lower_on_ascii)
  then have "str_lower (py_str i) = py_str i" by (simp only: ascii_lower_py_str)
  then show ?thesis
    by (simp add: yes_no_def fillna_empty_def isna_def py_str_nonempty py_str_not_phrase)
qed

lemma yes_no_cases:
  assumes b: "backend_lower str_lower"
  shows "yes_no str_lower c =
     (if c = NaN \<or> (\<exists>s. c = Str s \<and> (s = [] \<or> str_lower s \<in> set no_strings))
      then Str ''No'' else Str ''Yes'')"
proof (cases c)
  case NaN
  then show ?thesis by (simp add: yes_no_def isna_def)
next
  case (Str s)
  then show ?thesis
    by (simp add: yes_no_def fillna_empty_def isna_def backend_lower_empty[OF b])
next
  case (Num i)
  then show ?thesis by (simp add: yes_no_Num[OF b])
qed

lemma yes_no_ascii:
  assumes b: "backend_lower str_lower" and a: "list_all is_ascii t"
  shows "yes_no str_lower (Str t) = yes_no ascii_lower (Str t)"
  unfolding yes_no_cases[OF b] yes_no_cases[OF backend_lower_ascii]
  by (simp add: backend_lower_on_ascii[OF b a])

subsection \<open>Resolution of alias rules\<close>

lemma column_None_iff: "column df c = None \<longleftrightarrow> c \<notin> set (column_names df)"
  by (simp add: column_def column_names_def map_of_eq_None_iff)

lemma first_values_None: "first_values df cs = None \<longleftrightarrow> (\<forall>c\<in>set cs. c \<notin> set (column_names df))"
  by (induction cs) (auto simp: column_None_iff[symmetric] split: option.splits)

lemma first_values_at:
  "i < length cs \<Longrightarrow> column df (cs ! i) = Some vs \<Longrightarrow>
   (\<forall>j<i. cs ! j \<notin> set (column_names df)) \<Longrightarrow> first_values df cs = Some vs"
proof (induction cs arbitrary: i)
  case Nil
  then show ?case by simp
next
  case (Cons c cs)
  show ?case
  proof (cases i)
    case 0
    with Cons.prems show ?thesis by simp
  next
    case (Suc i')
    with Cons.prems have "c \<notin> set (column_names df)" by auto
    then have none: "column df c = None" by (simp add: column_None_iff)
    from Suc Cons.prems have "first_values df cs = Some vs"
      by (intro Cons.IH[of i']) auto
    with none show ?thesis by simp
  qed
qed

lemma resolve_None: "resolve df r = None \<longleftrightarrow> \<not> rule_present df r"
  by (cases r) (simp_all add: first_values_None column_None_iff)

subsection \<open>The fixed alias table\<close>

lemma distinct_mapper_clim: "distinct (map fst mapper_clim)"
  by code_simp

lemma extra_keys: "filter (\<lambda>k. k \<notin> set MASTER_COLUMNS) (map fst mapper_clim) = [thematic_focus, implementation_agency]"
  by code_simp

lemma budget_rule: "map_of mapper_clim budget_field = Some (Single budget_allocation)"
  by code_simp

lemma budget_allocation_nonempty: "budget_allocation \<noteq> []"
  by code_simp

lemma budget_field_canonical: "budget_field \<in> set MASTER_COLUMNS"
  by code_simp

lemma canonical_has_rule: "list_all (\<lambda>k. map_of mapper_clim k \<noteq> None) MASTER_COLUMNS"
  by code_simp

lemma no_empty_rule: "list_all (\<lambda>kr. snd kr \<noteq> Single []) mapper_clim"
  by code_simp

lemma loop_index:
  "wf_frame df \<Longrightarrow>
   index_len (mapping_loop df mapper_clim) =
     (if \<exists>kr\<in>set mapper_clim. rule_present df (snd kr) then index_len df else 0)"
proof -
  assume wf: "wf_frame df"
  have "index_len (mapping_loop df mapper_clim) =
          (if index_len df \<noteq> 0 \<and> (\<exists>kr\<in>set mapper_clim. resolve df (snd kr) \<noteq> None)
           then index_len df else 0)"
    using loop_columns[OF wf distinct_mapper_clim, of MASTER_COLUMNS]
    unfolding mapping_loop_def by blast
  then show ?thesis unfolding resolve_None by auto
qed

lemma loop_column:
  "wf_frame df \<Longrightarrow> map_of mapper_clim k = Some r \<Longrightarrow>
   column (mapping_loop df mapper_clim) k =
     Some (case resolve df r of Some vs \<Rightarrow> vs
           | None \<Rightarrow> replicate (index_len (mapping_loop df mapper_clim)) NaN)"
proof -
  assume wf: "wf_frame df" and r: "map_of mapper_clim k = Some r"
  have "\<forall>k. column (mapping_loop df mapper_clim) k =
          (case map_of mapper_clim k of
             Some r \<Rightarrow> Some (case resolve df r of Some vs \<Rightarrow> vs
                | None \<Rightarrow> replicate (index_len (mapping_loop df mapper_clim)) NaN)
           | None \<Rightarrow> if k \<in> set MASTER_COLUMNS
               then Some (replicate (index_len (mapping_loop df mapper_clim)) NaN) else None)"
    using loop_columns[OF wf distinct_mapper_clim, of MASTER_COLUMNS]
    unfolding mapping_loop_def by blast
  then show ?thesis by (simp add: r)
qed

lemma names_standardized:
  "column_names (mapping_loop df mapper_clim) = MASTER_COLUMNS @ [thematic_focus, implementation_agency]"
  by (simp add: names_mapping_loop distinct_mapper_clim extra_keys)

subsection \<open>Budget normalizer\<close>

lemma normalize_budget_clim:
  "normalize_budget str_lower df mapper_clim sdf =
     (case column df budget_allocation of
        Some vs \<Rightarrow> setitem_values sdf budget_field (map (yes_no str_lower) vs)
      | None \<Rightarrow> Inr sdf)"
  by (simp add: normalize_budget_def mapper_get_def budget_rule budget_allocation_nonempty)

lemma loop_index_budget:
  assumes wf: "wf_frame df" and c: "column df budget_allocation = Some vs"
  shows "index_len (mapping_loop df mapper_clim) = index_len df"
proof -
  from budget_rule have "(budget_field, Single budget_allocation) \<in> set mapper_clim"
    by (rule map_of_SomeD)
  moreover have "rule_present df (Single budget_allocation)"
    using c column_None_iff[of df budget_allocation] by (simp add: budget_allocation_nonempty)
  ultimately have "\<exists>kr\<in>set mapper_clim. rule_present df (snd kr)" by force
  then show ?thesis using loop_index[OF wf] by simp
qed

lemma before_dropna_present:
  assumes wf: "wf_frame df" and c: "column df budget_allocation = Some vs"
  shows "before_dropna str_lower df mapper_clim =
           Inr (set_column (mapping_loop df mapper_clim) budget_field (map (yes_no str_lower) vs))"
proof -
  have len: "length vs = index_len df" using wf c by (rule wf_column_length)
  have il: "index_len (mapping_loop df mapper_clim) = index_len df" using wf c by (rule loop_index_budget)
  have "ensure_valid_index (mapping_loop df mapper_clim) (map (yes_no str_lower) vs) = mapping_loop df mapper_clim"
    using len il by (auto simp: ensure_valid_index_def)
  then show ?thesis
    using len il by (simp add: before_dropna_def normalize_budget_clim c setitem_values_def)
qed

lemma before_dropna_absent:
  "column df budget_allocation = None \<Longrightarrow> before_dropna str_lower df mapper_clim = Inr (mapping_loop df mapper_clim)"
  by (simp add: before_dropna_def normalize_budget_clim)

lemma before_dropna_total:
  assumes wf: "wf_frame df"
  shows "\<exists>b. before_dropna str_lower df mapper_clim = Inr b \<and> cols_ok b
           \<and> index_len b = index_len (mapping_loop df mapper_clim)
           \<and> column_names b = MASTER_COLUMNS @ [thematic_focus, implementation_agency]"
proof (cases "column df budget_allocation")
  case None
  then show ?thesis
    by (simp add: before_dropna_absent cols_ok_mapping_loop names_standardized)
next
  case (Some vs)
  have len: "length vs = index_len df" using wf Some by (rule wf_column_length)
  have il: "index_len (mapping_loop df mapper_clim) = index_len df" using wf Some by (rule loop_index_budget)
  have "budget_field \<in> set (column_names (mapping_loop df mapper_clim))"
    using budget_field_canonical by (simp add: names_standardized)
  then show ?thesis
    using len il
    by (simp add: before_dropna_present[OF wf Some] cols_ok_set_column cols_ok_mapping_loop
        index_len_set_column names_set_column names_standardized)
qed

lemma yes_no_not_NaN: "yes_no str_lower c \<noteq> NaN"
  by (simp add: yes_no_def Let_def)

lemma process_file_present:
  assumes r: "read_excel f = Inr df" and wf: "wf_frame df" and c: "column df budget_allocation = Some vs"
  shows "process_file str_lower f mapper_clim =
           Inr ([], Some (set_column (mapping_loop df mapper_clim) budget_field (map (yes_no str_lower) vs)))"
proof -
  let ?b = "set_column (mapping_loop df mapper_clim) budget_field (map (yes_no str_lower) vs)"
  have len: "length vs = index_len df" using wf c by (rule wf_column_length)
  have il: "index_len (mapping_loop df mapper_clim) = index_len df" using wf c by (rule loop_index_budget)
  have ok: "cols_ok ?b" using len il by (simp add: cols_ok_set_column cols_ok_mapping_loop)
  have col: "column ?b budget_field = Some (map (yes_no str_lower) vs)" by (simp add: column_set_column)
  have "NaN \<notin> set (map (yes_no str_lower) vs)" using yes_no_not_NaN[symmetric] by auto
  with ok col have "dropna_all ?b = ?b" by (rule dropna_id)
  then show ?thesis by (simp add: process_file_def r before_dropna_present[OF wf c])
qed

subsection \<open>process_file on a readable file\<close>

lemma process_file_total:
  assumes r: "read_excel f = Inr df" and wf: "wf_frame df"
  shows "\<exists>b. before_dropna str_lower df mapper_clim = Inr b \<and> cols_ok b
           \<and> index_len b = index_len (mapping_loop df mapper_clim)
           \<and> column_names b = MASTER_COLUMNS @ [thematic_focus, implementation_agency]
           \<and> process_file str_lower f mapper_clim = Inr ([], Some (dropna_all b))"
  using before_dropna_total[OF wf, of str_lower] by (auto simp: process_file_def r)

subsection \<open>Concatenation\<close>

lemma unique_absorb: "distinct xs \<Longrightarrow> set ys \<subseteq> set xs \<Longrightarrow> unique (xs @ ys) = xs"
proof -
  assume d: "distinct xs" and sub: "set ys \<subseteq> set xs"
  from sub have "remdups (rev ys @ rev xs) = remdups (rev xs)" by (intro remdups_append) simp
  also have "\<dots> = rev xs" using d by (simp add: distinct_remdups_id)
  finally show ?thesis by (simp add: unique_def)
qed

lemma names_concat_same:
  assumes ne: "fs \<noteq> []" and same: "list_all (\<lambda>f. column_names f = names) fs" and d: "distinct names"
  shows "unique (concat (map column_names fs)) = names"
proof -
  from ne obtain f rest where fs: "fs = f # rest" by (cases fs) auto
  with same have f: "column_names f = names" and rest: "\<forall>g\<in>set rest. column_names g = names"
    by (auto simp: list_all_iff)
  from rest have "set (concat (map column_names rest)) \<subseteq> set names" by auto
  with d show ?thesis unfolding fs by (simp add: f unique_absorb)
qed

lemma index_len_concat: "index_len (concat_frames fs) = sum_list (map index_len fs)"
  by (simp add: concat_frames_def)

lemma names_concat_frames: "column_names (concat_frames fs) = unique (concat (map column_names fs))"
  by (simp add: concat_frames_def column_names_def comp_def)

lemma column_concat_frames:
  "k \<in> set (unique (concat (map column_names fs))) \<Longrightarrow>
   column (concat_frames fs) k =
     Some (concat (map (\<lambda>f. case column f k of Some vs \<Rightarrow> vs
                               | None \<Rightarrow> replicate (index_len f) NaN) fs))"
  by (simp add: concat_frames_def column_def map_of_map_restrict)

lemma assemble_eq:
  "assemble fs =
     Inr (set_column (concat_frames fs) ''Sl No''
            (map (\<lambda>i. Num (int i)) [1..<sum_list (map index_len fs) + 1]))"
proof -
  define n where "n = sum_list (map index_len fs)"
  define ids where "ids = map (\<lambda>i. Num (int i)) [1..<n + 1]"
  have il: "index_len (concat_frames fs) = n" by (simp add: index_len_concat n_def)
  have len: "length ids = n" by (simp add: ids_def)
  then have "\<not> (index_len (concat_frames fs) = 0 \<and> ids \<noteq> [])" using il by auto
  then have ev: "ensure_valid_index (concat_frames fs) ids = concat_frames fs"
    unfolding ensure_valid_index_def by (rule if_not_P)
  have "setitem_values (concat_frames fs) ''Sl No'' ids = Inr (set_column (concat_frames fs) ''Sl No'' ids)"
    unfolding setitem_values_def Let_def ev using len il by simp
  then show ?thesis unfolding assemble_def Let_def il ids_def n_def .
qed

subsection \<open>The loop over the uploaded files\<close>

lemma process_file_unreadable:
  "read_excel f = Inl cause \<Longrightarrow> process_file str_lower f mapper = Inr ([Error cause], None)"
  by (simp add: process_file_def)

lemma process_file_readable:
  assumes "readable_ok f"
  shows "(\<exists>cause. read_excel f = Inl cause \<and> process_file str_lower f mapper_clim = Inr ([Error cause], None))
       \<or> (\<exists>s. process_file str_lower f mapper_clim = Inr ([], Some s))"
proof (cases "read_excel f")
  case (Inl cause)
  then show ?thesis by (simp add: process_file_unreadable)
next
  case (Inr df)
  with assms have "wf_frame df" by (simp add: readable_ok_def)
  from process_file_total[OF Inr this, where str_lower = str_lower] show ?thesis by blast
qed

lemma file_unreadable:
  "read_excel f = Inl cause \<Longrightarrow>
   usable_table str_lower f = None \<and> file_events str_lower f = [Processing (file_name f), Error cause, Warning (file_name f)]"
  by (simp add: usable_table_def file_events_def process_file_unreadable)

lemma file_readable:
  "process_file str_lower f mapper_clim = Inr ([], Some s) \<Longrightarrow>
   usable_table str_lower f = (if empty_frame s then None else Some s)
   \<and> file_events str_lower f =
       [Processing (file_name f),
        if empty_frame s then Warning (file_name f) else Success (index_len s) (file_name f)]"
  by (simp add: usable_table_def file_events_def)

lemma process_files_step:
  assumes "process_file str_lower f mapper_clim = Inr (reported, processed_df)"
  shows "process_files str_lower (f # fs) log all_dfs =
           process_files str_lower fs (log @ file_events str_lower f)
             (all_dfs @ (case usable_table str_lower f of Some p \<Rightarrow> [p] | None \<Rightarrow> []))"
  using assms by (simp add: usable_table_def file_events_def split: option.splits)

lemma process_files_eq:
  "list_all readable_ok fs \<Longrightarrow>
   process_files str_lower fs log all_dfs =
     Inr (log @ concat (map (file_events str_lower) fs), all_dfs @ List.map_filter (usable_table str_lower) fs)"
proof (induction fs arbitrary: log all_dfs)
  case Nil
  then show ?case by simp
next
  case (Cons f fs)
  from Cons.prems have f: "readable_ok f" and rest: "list_all readable_ok fs" by simp_all
  from process_file_readable[OF f, where str_lower = str_lower] obtain reported processed_df where
    "process_file str_lower f mapper_clim = Inr (reported, processed_df)" by blast
  then have "process_files str_lower (f # fs) log all_dfs =
           process_files str_lower fs (log @ file_events str_lower f)
             (all_dfs @ (case usable_table str_lower f of Some p \<Rightarrow> [p] | None \<Rightarrow> []))"
    by (rule process_files_step)
  also have "\<dots> = Inr ((log @ file_events str_lower f) @ concat (map (file_events str_lower) fs),
                 (all_dfs @ (case usable_table str_lower f of Some p \<Rightarrow> [p] | None \<Rightarrow> []))
                   @ List.map_filter (usable_table str_lower) fs)"
    by (rule Cons.IH[OF rest])
  also have "\<dots> = Inr (log @ concat (map (file_events str_lower) (f # fs)),
                 all_dfs @ List.map_filter (usable_table str_lower) (f # fs))"
    by (simp split: option.splits)
  finally show ?case .
qed

lemma map_filter_append: "List.map_filter g (xs @ ys) = List.map_filter g xs @ List.map_filter g ys"
  by (simp add: List.map_filter_def)

lemma processed_names_append: "processed_names (xs @ ys) = processed_names xs @ processed_names ys"
  by (simp add: processed_names_def map_filter_append)

lemma file_events_shape:
  assumes "readable_ok f"
  shows "processed_names (file_events str_lower f) = [file_name f]
       \<and> NoDataInfo \<notin> set (file_events str_lower f) \<and> (\<forall>m. Download m \<notin> set (file_events str_lower f))"
  using process_file_readable[OF assms, where str_lower = str_lower]
proof (elim disjE exE conjE)
  fix cause assume "read_excel f = Inl cause"
  then show ?thesis by (simp add: file_unreadable processed_names_def)
next
  fix s assume "process_file str_lower f mapper_clim = Inr ([], Some s)"
  then show ?thesis by (simp add: file_readable processed_names_def)
qed

lemma batch_events:
  "list_all readable_ok fs \<Longrightarrow>
   processed_names (concat (map (file_events str_lower) fs)) = map file_name fs
   \<and> NoDataInfo \<notin> set (concat (map (file_events str_lower) fs))
   \<and> (\<forall>m. Download m \<notin> set (concat (map (file_events str_lower) fs)))"
proof (induction fs)
  case Nil
  then show ?case by (simp add: processed_names_def)
next
  case (Cons f fs)
  from Cons.prems have f: "readable_ok f" and rest: "list_all readable_ok fs" by simp_all
  from file_events_shape[OF f, where str_lower = str_lower] Cons.IH[OF rest] show ?case
    by (simp add: processed_names_append)
qed

lemma main_eq:
  assumes ne: "fs \<noteq> []" and ok: "list_all readable_ok fs"
  shows "\<exists>m. assemble (List.map_filter (usable_table str_lower) fs) = Inr m
           \<and> main str_lower fs =
               Inr ([Title, Intro] @ concat (map (file_events str_lower) fs)
                    @ (if List.map_filter (usable_table str_lower) fs = [] then [NoDataInfo]
                       else [Subheader, Preview (head 50 m), TotalRows (index_len m), Download m]))"
proof -
  obtain m where m: "assemble (List.map_filter (usable_table str_lower) fs) = Inr m"
    using assemble_eq by blast
  have "process_files str_lower fs [Title, Intro] [] =
          Inr ([Title, Intro] @ concat (map (file_events str_lower) fs), [] @ List.map_filter (usable_table str_lower) fs)"
    using ok by (rule process_files_eq)
  then have "main str_lower fs =
               Inr ([Title, Intro] @ concat (map (file_events str_lower) fs)
                    @ (if List.map_filter (usable_table str_lower) fs = [] then [NoDataInfo]
                       else [Subheader, Preview (head 50 m), TotalRows (index_len m), Download m]))"
    using ne m by (simp add: main_def)
  with m show ?thesis by blast
qed

subsection \<open>The objects after a call\<close>




section \<open>The claims\<close>

text \<open>
  C1. For every source table and every canonical field, the mapping loop fills the
  field as its alias rule says: all missing markers when the rule is absent; the
  source column's values when the rule is a single name that the source has, all
  missing markers otherwise; for a list of candidates the values of the first
  candidate that the source has, whatever later candidates it has, and all missing
  markers only when it has none. Every canonical field is a key of the alias table,
  and the filled column has one cell per row of the standardized table.
\<close>

theorem C1_mapping_loop_fields:
  assumes wf: "wf_frame df" and k: "k \<in> set MASTER_COLUMNS"
  shows "\<exists>r vs. map_of mapper_clim k = Some r
           \<and> column (mapping_loop df mapper_clim) k = Some vs
           \<and> (r = NoMapping \<longrightarrow> vs = replicate (index_len (mapping_loop df mapper_clim)) NaN)
           \<and> (\<forall>s. r = Single s \<longrightarrow>
                 (if s \<in> set (column_names df) then column df s = Some vs
                  else vs = replicate (index_len (mapping_loop df mapper_clim)) NaN))
           \<and> (\<forall>cs. r = Candidates cs \<longrightarrow>
                 (\<forall>i<length cs. cs ! i \<in> set (column_names df)
                      \<and> (\<forall>j<i. cs ! j \<notin> set (column_names df))
                    \<longrightarrow> column df (cs ! i) = Some vs)
                 \<and> ((\<forall>c\<in>set cs. c \<notin> set (column_names df))
                    \<longrightarrow> vs = replicate (index_len (mapping_loop df mapper_clim)) NaN))"
proof -
  let ?m = "index_len (mapping_loop df mapper_clim)"
  from canonical_has_rule k obtain r where r: "map_of mapper_clim k = Some r"
    unfolding list_all_iff by blast
  then have "(k, r) \<in> set mapper_clim" by (rule map_of_SomeD)
  with no_empty_rule have ne: "r \<noteq> Single []" unfolding list_all_iff by force
  define vs where "vs = (case resolve df r of Some vs \<Rightarrow> vs | None \<Rightarrow> replicate ?m NaN)"
  have col: "column (mapping_loop df mapper_clim) k = Some vs"
    unfolding vs_def using wf r by (rule loop_column)
  have a: "r = NoMapping \<Longrightarrow> vs = replicate ?m NaN"
    by (simp add: vs_def)
  have b: "if s \<in> set (column_names df) then column df s = Some vs else vs = replicate ?m NaN"
    if "r = Single s" for s
  proof (cases "column df s")
    case None
    then show ?thesis using that by (simp add: vs_def column_None_iff[symmetric])
  next
    case (Some ws)
    then have "s \<in> set (column_names df)" using column_None_iff[of df s] by simp
    then show ?thesis using that ne Some by (simp add: vs_def)
  qed
  have c1: "column df (cs ! i) = Some vs"
    if "r = Candidates cs" "i < length cs" "cs ! i \<in> set (column_names df)"
       "\<forall>j<i. cs ! j \<notin> set (column_names df)" for cs i
  proof -
    from that(3) obtain ws where ws: "column df (cs ! i) = Some ws"
      using column_None_iff[of df "cs ! i"] by auto
    from that(2) ws that(4) have "first_values df cs = Some ws" by (rule first_values_at)
    then have "vs = ws" using that(1) by (simp add: vs_def)
    with ws show ?thesis by simp
  qed
  have c2: "vs = replicate ?m NaN"
    if "r = Candidates cs" "\<forall>c\<in>set cs. c \<notin> set (column_names df)" for cs
  proof -
    from that(2) have "first_values df cs = None" by (simp add: first_values_None)
    then show ?thesis using that(1) by (simp add: vs_def)
  qed
  from r col a b c1 c2 show ?thesis by blast
qed

theorem C1_witness:
  "wf_frame example_table \<and> ''Title'' \<in> set MASTER_COLUMNS
   \<and> column (mapping_loop example_table mapper_clim) ''Title''
       = Some [Str ''Water Act'', Str ''Seed Plan'', NaN]"
proof -
  let ?long = "''Type of document (Policy; Program; Implementation plans; strategic plans, etc)''"
  have h1: "wf_frame example_table" by code_simp
  have h2: "''Title'' \<in> set MASTER_COLUMNS" by code_simp
  have rule: "map_of mapper_clim ''Title'' = Some (Candidates [?long, ''Policy''])" by code_simp
  have p1: "[?long, ''Policy''] ! 1 \<in> set (column_names example_table)" by code_simp
  have p0: "[?long, ''Policy''] ! 0 \<notin> set (column_names example_table)" by code_simp
  have src: "column example_table ([?long, ''Policy''] ! 1) = Some [Str ''Water Act'', Str ''Seed Plan'', NaN]"
    by code_simp
  from C1_mapping_loop_fields[OF h1 h2] rule obtain vs where
    col: "column (mapping_loop example_table mapper_clim) ''Title'' = Some vs" and
    cand: "\<forall>i<length [?long, ''Policy'']. [?long, ''Policy''] ! i \<in> set (column_names example_table)
                      \<and> (\<forall>j<i. [?long, ''Policy''] ! j \<notin> set (column_names example_table))
                    \<longrightarrow> column example_table ([?long, ''Policy''] ! i) = Some vs"
    by auto
  have "\<forall>j<(1::nat). [?long, ''Policy''] ! j \<notin> set (column_names example_table)"
    using p0 by (simp only: less_one) simp
  with cand p1 have "column example_table ([?long, ''Policy''] ! 1) = Some vs"
    by (metis One_nat_def length_Cons lessI list.size(3))
  with src col have "column (mapping_loop example_table mapper_clim) ''Title''
       = Some [Str ''Water Act'', Str ''Seed Plan'', NaN]" by simp
  with h1 h2 show ?thesis by blast
qed




text \<open>
  C3, as amended. Whatever the source table, the table returned by process_file has
  the 18 canonical columns in registry order followed by the two keys of the alias
  table that are not canonical fields, the thematic focus and the implementation
  agency: 20 columns.
\<close>

theorem C3_columns:
  assumes r: "read_excel f = Inr df" and wf: "wf_frame df"
  shows "\<exists>s. process_file str_lower f mapper_clim = Inr ([], Some s)
           \<and> column_names s = MASTER_COLUMNS @ [thematic_focus, implementation_agency]"
  using process_file_total[OF r wf, where str_lower = str_lower] by (auto simp: names_dropna)

theorem C3_witness:
  "read_excel example_file = Inr example_table \<and> wf_frame example_table
   \<and> (\<exists>s. process_file ascii_lower example_file mapper_clim = Inr ([], Some s)
          \<and> length (column_names s) = 20)"
proof -
  have h1: "read_excel example_file = Inr example_table" by (simp add: example_file_def)
  have h2: "wf_frame example_table" by code_simp
  have n: "length (MASTER_COLUMNS @ [thematic_focus, implementation_agency]) = 20" by code_simp
  from C3_columns[OF h1 h2, where str_lower = ascii_lower] n h1 h2 show ?thesis by auto
qed

text \<open>
  The claim as stated fails already on a workbook without columns or rows: the result
  has 20 columns, not the 18 of the registry.
\<close>

theorem C3_counterexample:
  "process_file ascii_lower empty_workbook mapper_clim
     = Inr ([], Some (DataFrame (MASTER_COLUMNS @ [thematic_focus, implementation_agency])))
   \<and> column_names (DataFrame (MASTER_COLUMNS @ [thematic_focus, implementation_agency]))
       \<noteq> MASTER_COLUMNS"
  by code_simp

text \<open>
  C4, as amended. The rows of the table returned by process_file are, in order, the
  rows of the normalized table that hold something other than the missing marker in
  at least one of its 20 columns, the two pass-through columns included: a row is
  dropped exactly when all 20 hold the missing marker.
\<close>

theorem C4_rows_dropped:
  assumes r: "read_excel f = Inr df" and wf: "wf_frame df"
  shows "\<exists>b s. before_dropna str_lower df mapper_clim = Inr b
           \<and> column_names b = MASTER_COLUMNS @ [thematic_focus, implementation_agency]
           \<and> process_file str_lower f mapper_clim = Inr ([], Some s)
           \<and> rows s = filter (\<lambda>r. \<exists>c\<in>set r. c \<noteq> NaN) (rows b)
           \<and> index_len s = length (rows s)"
proof -
  from process_file_total[OF r wf, where str_lower = str_lower] obtain b where
    b: "before_dropna str_lower df mapper_clim = Inr b"
       "column_names b = MASTER_COLUMNS @ [thematic_focus, implementation_agency]"
       "process_file str_lower f mapper_clim = Inr ([], Some (dropna_all b))"
    by blast
  have "rows (dropna_all b) = filter (\<lambda>r. \<exists>c\<in>set r. c \<noteq> NaN) (rows b)"
    unfolding rows_dropna by (rule filter_cong) (auto simp: list_all_iff isna_def)
  moreover have "index_len (dropna_all b) = length (rows (dropna_all b))"
    by (simp add: rows_def)
  ultimately show ?thesis using b by blast
qed

theorem C4_witness:
  "read_excel example_no_budget_file = Inr example_no_budget \<and> wf_frame example_no_budget
   \<and> (\<exists>s. process_file ascii_lower example_no_budget_file mapper_clim = Inr ([], Some s) \<and> index_len s = 1)"
proof -
  have h1: "read_excel example_no_budget_file = Inr example_no_budget"
    by (simp add: example_no_budget_file_def)
  have h2: "wf_frame example_no_budget" by code_simp
  have b: "before_dropna ascii_lower example_no_budget mapper_clim = Inr (mapping_loop example_no_budget mapper_clim)"
    by code_simp
  have n: "length (filter (\<lambda>r. \<exists>c\<in>set r. c \<noteq> NaN) (rows (mapping_loop example_no_budget mapper_clim))) = 1"
    by code_simp
  from C4_rows_dropped[OF h1 h2, where str_lower = ascii_lower] b n h1 h2 show ?thesis by auto
qed

text \<open>
  The claim as stated fails on the second row of this source: every canonical field
  of it is missing and only the thematic focus is filled, and the row is returned.
  The first row, blank throughout, is dropped.
\<close>

theorem C4_counterexample:
  "process_file ascii_lower \<lparr>file_name = ''blank.xlsx'', read_excel = Inr pass_through_table\<rparr> mapper_clim =
   Inr ([],
      Some
       \<lparr>index_len = 1,
          columns =
            [(''Sl No'', [NaN]), (''Title'', [NaN]),
             (''Type of document'', [NaN]),
             (''Publication/Adoption Date'', [NaN]),
             (''Country'', [NaN]),
             (''Goals/objectives/vision statements'', [NaN]),
             (''Problems/challenges identified'', [NaN]),
             (''Calls for action/intervention'', [NaN]),
             (''Demands with pledges, commitment, or funding (Yes/No)'', [NaN]),
             (''Indicators of urgency/priority'', [NaN]),
             (''Type of demand'', [NaN]),
             (''Description of the specific Innovation(s)'', [NaN]),
             (''Type of Innovation'', [NaN]),
             (''CGIAR Impact Area(s)'', [NaN]),
             (''SDG Contribution'', [NaN]),
             (''Stakeholder groups involved'', [NaN]),
             (''Stakeholder group needs/demand/effective demand'', [NaN]),
             (''URL'', [NaN]),
             (thematic_focus, [Str ''x'']),
             (implementation_agency, [NaN])]\<rparr>)"
  by code_simp

text \<open>
  C5. For a non-empty sequence of tables that share the standardized column list, the
  master dataset has the rows of the tables one after the other in upload order:
  its row count is the sum of theirs, and each column other than the identifier is
  the concatenation of that column of the tables, in order. The identifier column is
  1..N whatever the tables held there.
\<close>

theorem C5_assemble:
  assumes ne: "fs \<noteq> []" and same: "list_all (\<lambda>f. column_names f = names) fs"
    and d: "distinct names" and sl: "''Sl No'' \<in> set names"
  shows "\<exists>m. assemble fs = Inr m
           \<and> index_len m = sum_list (map index_len fs)
           \<and> column_names m = names
           \<and> column m ''Sl No'' = Some (map (\<lambda>i. Num (int i)) [1..<sum_list (map index_len fs) + 1])
           \<and> (\<forall>k\<in>set names. k \<noteq> ''Sl No'' \<longrightarrow>
                 (\<exists>vss. map (\<lambda>f. column f k) fs = map Some vss \<and> column m k = Some (concat vss)))"
proof -
  let ?ids = "map (\<lambda>i. Num (int i)) [1..<sum_list (map index_len fs) + 1]"
  let ?m = "set_column (concat_frames fs) ''Sl No'' ?ids"
  have nm: "unique (concat (map column_names fs)) = names" using ne same d by (rule names_concat_same)
  have a: "assemble fs = Inr ?m" by (rule assemble_eq)
  have b: "index_len ?m = sum_list (map index_len fs)" by (simp add: index_len_set_column index_len_concat)
  have c: "column_names ?m = names" using sl by (simp add: names_set_column names_concat_frames nm)
  have e: "column ?m ''Sl No'' = Some ?ids" by (simp add: column_set_column)
  have g: "\<exists>vss. map (\<lambda>f. column f k) fs = map Some vss \<and> column ?m k = Some (concat vss)"
    if k: "k \<in> set names" and neq: "k \<noteq> ''Sl No''" for k
  proof -
    let ?vss = "map (\<lambda>f. case column f k of Some vs \<Rightarrow> vs | None \<Rightarrow> replicate (index_len f) NaN) fs"
    have "column f k = Some (case column f k of Some vs \<Rightarrow> vs | None \<Rightarrow> replicate (index_len f) NaN)"
      if "f \<in> set fs" for f
    proof -
      from that same have "column_names f = names" by (simp add: list_all_iff)
      with k have "column f k \<noteq> None" by (simp add: column_None_iff)
      then show ?thesis by (auto split: option.splits)
    qed
    then have 1: "map (\<lambda>f. column f k) fs = map Some ?vss" by (simp add: comp_def)
    have "column ?m k = column (concat_frames fs) k" using neq by (simp add: column_set_column)
    also have "\<dots> = Some (concat ?vss)" using k by (simp add: column_concat_frames nm)
    finally show ?thesis using 1 by blast
  qed
  from a b c e g show ?thesis by blast
qed

theorem C5_witness:
  "[table_a, table_b] \<noteq> []
   \<and> list_all (\<lambda>f. column_names f = [''Sl No'', ''Title'']) [table_a, table_b]
   \<and> distinct [''Sl No'', ''Title''] \<and> ''Sl No'' \<in> set [''Sl No'', ''Title'']
   \<and> (\<exists>m. assemble [table_a, table_b] = Inr m \<and> index_len m = 5
          \<and> column m ''Sl No'' = Some [Num 1, Num 2, Num 3, Num 4, Num 5]
          \<and> column m ''Title'' = Some [Str ''a1'', Str ''a2'', Str ''a3'', Str ''b1'', Str ''b2''])"
proof -
  have h1: "[table_a, table_b] \<noteq> []" by simp
  have h2: "list_all (\<lambda>f. column_names f = [''Sl No'', ''Title'']) [table_a, table_b]" by code_simp
  have h3: "distinct [''Sl No'', ''Title'']" by code_simp
  have h4: "''Sl No'' \<in> set [''Sl No'', ''Title'']" by simp
  have n: "sum_list (map index_len [table_a, table_b]) = 5" by code_simp
  have ids: "map (\<lambda>i. Num (int i)) [1..<5 + 1] = [Num 1, Num 2, Num 3, Num 4, Num 5]" by code_simp
  have t: "''Title'' \<in> set [''Sl No'', ''Title'']" "''Title'' \<noteq> ''Sl No''" by simp_all
  have cols: "map (\<lambda>f. column f ''Title'') [table_a, table_b]
                = map Some [[Str ''a1'', Str ''a2'', Str ''a3''], [Str ''b1'', Str ''b2'']]" by code_simp
  from C5_assemble[OF h1 h2 h3 h4] obtain m where m:
    "assemble [table_a, table_b] = Inr m" "index_len m = sum_list (map index_len [table_a, table_b])"
    "column m ''Sl No'' = Some (map (\<lambda>i. Num (int i)) [1..<sum_list (map index_len [table_a, table_b]) + 1])"
    "\<forall>k\<in>set [''Sl No'', ''Title'']. k \<noteq> ''Sl No'' \<longrightarrow>
        (\<exists>vss. map (\<lambda>f. column f k) [table_a, table_b] = map Some vss \<and> column m k = Some (concat vss))"
    by (elim exE conjE)
  from m(4)[rule_format, OF t] obtain vss where
    vss: "map (\<lambda>f. column f ''Title'') [table_a, table_b] = map Some vss"
      "column m ''Title'' = Some (concat vss)"
    by (elim exE conjE)
  from vss(1) have "map Some vss = map Some [[Str ''a1'', Str ''a2'', Str ''a3''], [Str ''b1'', Str ''b2'']]"
    unfolding cols by (rule sym)
  then have "vss = [[Str ''a1'', Str ''a2'', Str ''a3''], [Str ''b1'', Str ''b2'']]"
    by (simp only: inj_map_eq_map[OF inj_Some])
  then have "concat vss = [Str ''a1'', Str ''a2'', Str ''a3'', Str ''b1'', Str ''b2'']"
    by (simp only: concat.simps append.simps)
  with vss(2) have title: "column m ''Title'' = Some [Str ''a1'', Str ''a2'', Str ''a3'', Str ''b1'', Str ''b2'']"
    by (simp only:)
  have il: "index_len m = 5" using m(2) unfolding n .
  have sl: "column m ''Sl No'' = Some [Num 1, Num 2, Num 3, Num 4, Num 5]" using m(3) unfolding n ids .
  have "\<exists>m. assemble [table_a, table_b] = Inr m \<and> index_len m = 5
          \<and> column m ''Sl No'' = Some [Num 1, Num 2, Num 3, Num 4, Num 5]
          \<and> column m ''Title'' = Some [Str ''a1'', Str ''a2'', Str ''a3'', Str ''b1'', Str ''b2'']"
    using m(1) il sl title by (intro exI[of _ m] conjI)
  with h1 h2 h3 h4 show ?thesis by (intro conjI)
qed

text \<open>
  C6. When the source has no column of the budget field's alias rule, the normalizer
  leaves the mapped table as it is. The Mapper has filled the budget field of that
  table with the missing marker over all its rows, as many as the source has when
  some other rule names a source column; and the table returned by process_file
  consists of the rows of the mapped table that are not blank throughout, each with
  the missing marker in the budget field, not Yes or No.
\<close>

theorem C6_no_backing_column:
  assumes r: "read_excel f = Inr df" and wf: "wf_frame df"
    and absent: "budget_allocation \<notin> set (column_names df)"
  shows "normalize_budget str_lower df mapper_clim (mapping_loop df mapper_clim)
           = Inr (mapping_loop df mapper_clim)
         \<and> index_len (mapping_loop df mapper_clim) =
             (if \<exists>kr\<in>set mapper_clim. rule_present df (snd kr) then index_len df else 0)
         \<and> column (mapping_loop df mapper_clim) budget_field
             = Some (replicate (index_len (mapping_loop df mapper_clim)) NaN)
         \<and> (\<exists>s. process_file str_lower f mapper_clim = Inr ([], Some s)
                \<and> rows s = filter (\<lambda>r. \<exists>c\<in>set r. c \<noteq> NaN) (rows (mapping_loop df mapper_clim))
                \<and> index_len s = length (rows s)
                \<and> column s budget_field = Some (replicate (index_len s) NaN))"
proof -
  let ?l = "mapping_loop df mapper_clim"
  from absent have none: "column df budget_allocation = None" by (simp add: column_None_iff)
  then have b: "before_dropna str_lower df mapper_clim = Inr ?l" by (rule before_dropna_absent)
  then have n: "normalize_budget str_lower df mapper_clim ?l = Inr ?l" by (simp add: before_dropna_def)
  have il: "index_len ?l = (if \<exists>kr\<in>set mapper_clim. rule_present df (snd kr) then index_len df else 0)"
    using wf by (rule loop_index)
  have "resolve df (Single budget_allocation) = None" using none by simp
  then have col: "column ?l budget_field = Some (replicate (index_len ?l) NaN)"
    using loop_column[OF wf budget_rule] by simp
  then have cd: "column (dropna_all ?l) budget_field = Some (replicate (index_len (dropna_all ?l)) NaN)"
    by (rule column_dropna_all_NaN)
  have pf: "process_file str_lower f mapper_clim = Inr ([], Some (dropna_all ?l))"
    by (simp add: process_file_def r b)
  have rw: "rows (dropna_all ?l) = filter (\<lambda>r. \<exists>c\<in>set r. c \<noteq> NaN) (rows ?l)"
    unfolding rows_dropna by (rule filter_cong) (auto simp: list_all_iff isna_def)
  have ln: "index_len (dropna_all ?l) = length (rows (dropna_all ?l))" by (simp add: rows_def)
  from pf rw ln cd have "\<exists>s. process_file str_lower f mapper_clim = Inr ([], Some s)
                \<and> rows s = filter (\<lambda>r. \<exists>c\<in>set r. c \<noteq> NaN) (rows ?l)
                \<and> index_len s = length (rows s)
                \<and> column s budget_field = Some (replicate (index_len s) NaN)"
    by (intro exI[of _ "dropna_all ?l"] conjI)
  with n il col show ?thesis by (intro conjI)
qed

theorem C6_witness:
  "read_excel example_no_budget_file = Inr example_no_budget \<and> wf_frame example_no_budget
   \<and> budget_allocation \<notin> set (column_names example_no_budget)
   \<and> index_len (mapping_loop example_no_budget mapper_clim) = 2
   \<and> column (mapping_loop example_no_budget mapper_clim) budget_field = Some [NaN, NaN]
   \<and> (\<exists>s. process_file ascii_lower example_no_budget_file mapper_clim = Inr ([], Some s)
          \<and> index_len s = 1 \<and> column s budget_field = Some [NaN])"
proof -
  have h1: "read_excel example_no_budget_file = Inr example_no_budget"
    by (simp add: example_no_budget_file_def)
  have h2: "wf_frame example_no_budget" by code_simp
  have h3: "budget_allocation \<notin> set (column_names example_no_budget)" by code_simp
  have p: "(if \<exists>kr\<in>set mapper_clim. rule_present example_no_budget (snd kr)
            then index_len example_no_budget else 0) = 2" by code_simp
  have k: "length (filter (\<lambda>r. \<exists>c\<in>set r. c \<noteq> NaN)
             (rows (mapping_loop example_no_budget mapper_clim))) = 1" by code_simp
  have r2: "replicate 2 NaN = [NaN, NaN]" by code_simp
  have r1: "replicate 1 NaN = [NaN]" by code_simp
  note inst = C6_no_backing_column[OF h1 h2 h3, where str_lower = ascii_lower]
  from inst have il: "index_len (mapping_loop example_no_budget mapper_clim) = 2"
    unfolding p by (elim conjE)
  from inst have "column (mapping_loop example_no_budget mapper_clim) budget_field
             = Some (replicate (index_len (mapping_loop example_no_budget mapper_clim)) NaN)"
    by (elim conjE)
  then have col: "column (mapping_loop example_no_budget mapper_clim) budget_field = Some [NaN, NaN]"
    unfolding il r2 .
  from inst obtain s where
    s: "process_file ascii_lower example_no_budget_file mapper_clim = Inr ([], Some s)"
       "rows s = filter (\<lambda>r. \<exists>c\<in>set r. c \<noteq> NaN) (rows (mapping_loop example_no_budget mapper_clim))"
       "index_len s = length (rows s)"
       "column s budget_field = Some (replicate (index_len s) NaN)"
    by (elim exE conjE)
  from s(3) have n1: "index_len s = 1" unfolding s(2) k .
  from s(4) have c1: "column s budget_field = Some [NaN]" unfolding n1 r1 .
  have "\<exists>s. process_file ascii_lower example_no_budget_file mapper_clim = Inr ([], Some s)
          \<and> index_len s = 1 \<and> column s budget_field = Some [NaN]"
    using s(1) n1 c1 by (intro exI[of _ s] conjI)
  with h1 h2 h3 il col show ?thesis by (intro conjI)
qed

text \<open>
  C7, as amended. After the mapping loop, and still after the budget normalizer, the
  standardized table has as many rows as the source when some alias rule names a
  column of the source, and no rows at all when none does: a scalar assigned to a
  table without rows adds none.
\<close>

theorem C7_row_count:
  assumes wf: "wf_frame df"
  shows "index_len (mapping_loop df mapper_clim) =
           (if \<exists>kr\<in>set mapper_clim. rule_present df (snd kr) then index_len df else 0)
         \<and> (\<exists>b. before_dropna str_lower df mapper_clim = Inr b
                \<and> index_len b = index_len (mapping_loop df mapper_clim))"
  using loop_index[OF wf] before_dropna_total[OF wf, where str_lower = str_lower] by blast

theorem C7_witness:
  "wf_frame example_table \<and> index_len (mapping_loop example_table mapper_clim) = 3"
proof -
  have h: "wf_frame example_table" by code_simp
  have p: "\<exists>kr\<in>set mapper_clim. rule_present example_table (snd kr)" by code_simp
  have n: "index_len example_table = 3" by code_simp
  from C7_row_count[OF h, where str_lower = ascii_lower] p n show ?thesis using h by simp
qed

text \<open>
  The claim as stated fails on a source of one row none of whose columns is an alias:
  the mapped table has no rows.
\<close>

theorem C7_counterexample:
  "index_len unmatched_table = 1 \<and> index_len (mapping_loop unmatched_table mapper_clim) = 0"
  by code_simp

text \<open>
  C8. In a batch whose other readable files hold well-formed tables, a file that
  cannot be read makes process_file report the cause and return None for that file
  alone: main goes through every file of the batch in order, the tables it collects
  are those of the batch without the unreadable file, the cause and a warning for the
  file are reported, and the download is offered exactly when some file gave a table
  with rows, the no-data notice exactly when none did.
\<close>

theorem C8_batch_isolation:
  assumes bad: "read_excel bad = Inl cause" and ok: "list_all readable_ok (pre @ post)"
  shows "process_file str_lower bad mapper_clim = Inr ([Error cause], None)
       \<and> List.map_filter (usable_table str_lower) (pre @ bad # post) = List.map_filter (usable_table str_lower) (pre @ post)
       \<and> (\<exists>evs. main str_lower (pre @ bad # post) = Inr evs
              \<and> processed_names evs = map file_name (pre @ bad # post)
              \<and> Error cause \<in> set evs \<and> Warning (file_name bad) \<in> set evs
              \<and> (NoDataInfo \<in> set evs \<longleftrightarrow> List.map_filter (usable_table str_lower) (pre @ post) = [])
              \<and> (\<forall>m. Download m \<in> set evs \<longleftrightarrow>
                       List.map_filter (usable_table str_lower) (pre @ post) \<noteq> []
                       \<and> assemble (List.map_filter (usable_table str_lower) (pre @ post)) = Inr m))"
proof -
  define fs where "fs = pre @ bad # post"
  define tables where "tables = List.map_filter (usable_table str_lower) (pre @ post)"
  have a: "process_file str_lower bad mapper_clim = Inr ([Error cause], None)"
    using bad by (rule process_file_unreadable)
  have badok: "readable_ok bad" using bad by (simp add: readable_ok_def)
  with ok have ok': "list_all readable_ok fs" by (simp add: fs_def)
  have b: "List.map_filter (usable_table str_lower) fs = tables"
    using file_unreadable[OF bad, where str_lower = str_lower] by (simp add: map_filter_append fs_def tables_def)
  have ne: "fs \<noteq> []" by (simp add: fs_def)
  from main_eq[OF ne ok', where str_lower = str_lower] obtain m where
    m: "assemble tables = Inr m" and
    mn: "main str_lower fs =
           Inr ([Title, Intro] @ concat (map (file_events str_lower) fs)
                @ (if tables = [] then [NoDataInfo]
                   else [Subheader, Preview (head 50 m), TotalRows (index_len m), Download m]))"
    unfolding b by blast
  define tail where
    "tail = (if tables = [] then [NoDataInfo]
             else [Subheader, Preview (head 50 m), TotalRows (index_len m), Download m])"
  define evs where "evs = [Title, Intro] @ concat (map (file_events str_lower) fs) @ tail"
  have c: "main str_lower fs = Inr evs" using mn unfolding evs_def tail_def .
  note be = batch_events[OF ok', where str_lower = str_lower]
  have pn_head: "processed_names [Title, Intro] = []" by (simp add: processed_names_def)
  have pn_tail: "processed_names tail = []" by (simp add: processed_names_def tail_def)
  have d: "processed_names evs = map file_name fs"
    unfolding evs_def processed_names_append pn_head pn_tail using be by simp
  have "bad \<in> set fs" by (simp add: fs_def)
  then have "set (file_events str_lower bad) \<subseteq> set evs" unfolding evs_def by auto
  then have e: "Error cause \<in> set evs \<and> Warning (file_name bad) \<in> set evs"
    using file_unreadable[OF bad, where str_lower = str_lower] by auto
  have set_evs: "set evs = {Title, Intro} \<union> set (concat (map (file_events str_lower) fs)) \<union> set tail"
    unfolding evs_def by auto
  have g: "NoDataInfo \<in> set evs \<longleftrightarrow> tables = []"
    unfolding set_evs using be by (simp add: tail_def)
  have h: "Download m' \<in> set evs \<longleftrightarrow> tables \<noteq> [] \<and> assemble tables = Inr m'" for m'
    unfolding set_evs using be m by (auto simp: tail_def)
  from a b c d e g h show ?thesis unfolding fs_def tables_def by blast
qed

theorem C8_witness:
  "read_excel broken_file = Inl ''File is not a zip file''
   \<and> list_all readable_ok ([example_file] @ [example_no_budget_file])
   \<and> process_file ascii_lower broken_file mapper_clim = Inr ([Error ''File is not a zip file''], None)
   \<and> (\<exists>evs. main ascii_lower ([example_file] @ broken_file # [example_no_budget_file]) = Inr evs
          \<and> processed_names evs = [''kenya.xlsx'', ''broken.xlsx'', ''land.xlsx''])"
proof -
  have h1: "read_excel broken_file = Inl ''File is not a zip file''" by (simp add: broken_file_def)
  have h2: "list_all readable_ok ([example_file] @ [example_no_budget_file])" by code_simp
  have n: "map file_name ([example_file] @ broken_file # [example_no_budget_file])
             = [''kenya.xlsx'', ''broken.xlsx'', ''land.xlsx'']" by code_simp
  from C8_batch_isolation[OF h1 h2, where str_lower = ascii_lower] obtain evs where
    p: "process_file ascii_lower broken_file mapper_clim = Inr ([Error ''File is not a zip file''], None)" and
    m: "main ascii_lower ([example_file] @ broken_file # [example_no_budget_file]) = Inr evs" and
    q: "processed_names evs = map file_name ([example_file] @ broken_file # [example_no_budget_file])"
    by (elim exE conjE)
  from q have q': "processed_names evs = [''kenya.xlsx'', ''broken.xlsx'', ''land.xlsx'']"
    unfolding n .
  have "\<exists>evs. main ascii_lower ([example_file] @ broken_file # [example_no_budget_file]) = Inr evs
          \<and> processed_names evs = [''kenya.xlsx'', ''broken.xlsx'', ''land.xlsx'']"
    using m q' by (intro exI[of _ evs] conjI)
  with h1 h2 p show ?thesis by (intro conjI)
qed



text \<open>
  C10. When the source has the backing column of the budget field, the table returned
  by process_file is the normalized table itself: no row is dropped, it has the
  source's row count, and every cell of the budget field is Yes or No.
\<close>

theorem C10_normalized_rows_kept:
  assumes r: "read_excel f = Inr df" and wf: "wf_frame df"
    and c: "column df budget_allocation = Some vs"
  shows "\<exists>s. process_file str_lower f mapper_clim = Inr ([], Some s)
           \<and> before_dropna str_lower df mapper_clim = Inr s
           \<and> index_len s = index_len df
           \<and> (\<exists>ys. column s budget_field = Some ys \<and> length ys = index_len df
                  \<and> set ys \<subseteq> {Str ''Yes'', Str ''No''})"
proof -
  let ?s = "set_column (mapping_loop df mapper_clim) budget_field (map (yes_no str_lower) vs)"
  have len: "length vs = index_len df" using wf c by (rule wf_column_length)
  have il: "index_len (mapping_loop df mapper_clim) = index_len df" using wf c by (rule loop_index_budget)
  have yn: "set (map (yes_no str_lower) vs) \<subseteq> {Str ''Yes'', Str ''No''}"
    by (auto simp: yes_no_def Let_def)
  have "process_file str_lower f mapper_clim = Inr ([], Some ?s)" using r wf c by (rule process_file_present)
  moreover have "before_dropna str_lower df mapper_clim = Inr ?s" using wf c by (rule before_dropna_present)
  moreover have "index_len ?s = index_len df" by (simp add: index_len_set_column il)
  moreover have "column ?s budget_field = Some (map (yes_no str_lower) vs)" by (simp add: column_set_column)
  ultimately show ?thesis using len yn by (metis length_map)
qed

theorem C10_witness:
  "read_excel example_file = Inr example_table \<and> wf_frame example_table
   \<and> column example_table budget_allocation = Some [Str ''Not Specified'', Str ''$2M allocated'', NaN]
   \<and> (\<exists>s. process_file ascii_lower example_file mapper_clim = Inr ([], Some s) \<and> index_len s = 3)"
proof -
  have h1: "read_excel example_file = Inr example_table" by (simp add: example_file_def)
  have h2: "wf_frame example_table" by code_simp
  have h3: "column example_table budget_allocation = Some [Str ''Not Specified'', Str ''$2M allocated'', NaN]"
    by code_simp
  have n: "index_len example_table = 3" by code_simp
  from C10_normalized_rows_kept[OF h1 h2 h3, where str_lower = ascii_lower] n h1 h2 h3 show ?thesis by auto
qed

end
